theory Spec2Isabelle
  imports Complex_Main "HOL-Library.Log_Nat"
begin

section \<open>Python values and exceptions\<close>

text \<open>
  The module under verification is
  \<^verbatim>\<open>merv/models/backbones/video/languagebind/video/processing_video.py\<close>.
  Every \<^verbatim>\<open>raise\<close>, failed \<^verbatim>\<open>assert\<close> and library exception is a value of
  type \<open>error\<close>; a function that can raise returns \<open>error + 'a\<close> with \<open>Inl\<close> the
  exception. The string is the exception's message (abbreviated for library exceptions).
\<close>

datatype error =
    ValueError string
  | NameError string
  | TypeError string
  | RuntimeError string
  | ZeroDivisionError string
  | IndexError string
  | AttributeError string
  | AssertionError

datatype pyval = PNone | PBool bool | PInt int | PStr string | PList "pyval list"

type_synonym kwargs = "string \<rightharpoonup> pyval"

fun is_value_error :: "error \<Rightarrow> bool" where
  "is_value_error (ValueError m) = True"
| "is_value_error e = False"

function str_nat :: "nat \<Rightarrow> string" where
  \<comment> \<open>the decimal digits of a natural number, as \<^verbatim>\<open>str\<close> prints them\<close>
  "str_nat n = (if n < 10 then [''0123456789'' ! n]
                else str_nat (n div 10) @ [''0123456789'' ! (n mod 10)])"
  by pat_completeness auto
termination by (relation "measure id") auto

definition str_int :: "int \<Rightarrow> string" where
  \<comment> \<open>\<^verbatim>\<open>"%s" % i\<close> for an \<^verbatim>\<open>int\<close>\<close>
  "str_int i = (if i < 0 then CHR ''-'' # str_nat (nat (- i)) else str_nat (nat i))"

definition is_ValueError :: "error + 'a \<Rightarrow> bool" where
  \<comment> \<open>the call raised a \<^verbatim>\<open>ValueError\<close>\<close>
  "is_ValueError r = (case r of Inl e \<Rightarrow> is_value_error e | Inr v \<Rightarrow> False)"

section \<open>Double-precision arithmetic\<close>

text \<open>
  Python's \<^verbatim>\<open>float\<close> and NumPy's \<^verbatim>\<open>float64\<close> are IEEE-754 binary64 numbers. A
  finite double is a rational, and every operation returns the exact result rounded to
  the nearest double, ties to the even significand. \<open>fl64\<close> is this rounding on
  rationals with a 53-bit significand and an unbounded exponent: it agrees with binary64
  on every magnitude in the normal range \<open>[2^-1022, 2^1024)\<close>, which contains all
  quotients and products of frame counts and picture sizes below \<open>2^53\<close>.
\<close>

definition rne :: "rat \<Rightarrow> int" where
  \<comment> \<open>round to the nearest integer, a tie to the even one\<close>
  "rne x = (let n = \<lfloor>x\<rfloor>; r = x - of_int n in
            if r < 1/2 then n else if 1/2 < r then n + 1 else if even n then n else n + 1)"

definition ilog2 :: "rat \<Rightarrow> int" where
  \<comment> \<open>\<open>\<lfloor>log\<^sub>2 x\<rfloor>\<close> for positive \<open>x\<close>, from the bit lengths of numerator and denominator\<close>
  "ilog2 x = (let p = fst (quotient_of x); q = snd (quotient_of x); d = bitlen p - bitlen q in
              if 2 powi d \<le> x then d else d - 1)"

definition fl64 :: "rat \<Rightarrow> rat" where
  "fl64 x = (if x = 0 then 0 else
     let e = ilog2 \<bar>x\<bar> - 52 in sgn x * of_int (rne (\<bar>x\<bar> / 2 powi e)) * 2 powi e)"

definition float_truediv :: "rat \<Rightarrow> nat \<Rightarrow> error + rat" where
  \<comment> \<open>\<^verbatim>\<open>a / b\<close> for a float \<open>a\<close> and an int \<open>b\<close>\<close>
  "float_truediv a b =
     (if b = 0 then Inl (ZeroDivisionError ''float division by zero'')
      else Inr (fl64 (a / fl64 (of_nat b))))"

section \<open>Frame index selection\<close>

text \<open>
  Line 94: \<^verbatim>\<open>frame_id_list = np.linspace(0, duration - 1, num_frames, dtype=int)\<close>.
  NumPy (\<^verbatim>\<open>numpy/_core/function_base.py\<close>) computes, in doubles,
  \<^verbatim>\<open>step = delta / div\<close> with \<^verbatim>\<open>div = num - 1\<close>, then \<^verbatim>\<open>y = arange(0, num) * step + start\<close>,
  stores \<^verbatim>\<open>stop\<close> itself in the last place when \<^verbatim>\<open>num > 1\<close>, and for an integer
  dtype takes \<^verbatim>\<open>floor\<close> before the cast. A negative \<^verbatim>\<open>num\<close> raises \<^verbatim>\<open>ValueError\<close>.
  So does a \<^verbatim>\<open>num\<close> whose array of doubles cannot be addressed: on a 64-bit platform
  \<^verbatim>\<open>arange(0, num)\<close> raises \<^verbatim>\<open>ValueError\<close> when \<open>8 * num\<close> bytes exceed the largest
  signed 64-bit size, that is from \<open>num = 2\<^sup>6\<^sup>0\<close> on. (Below that bound an array that
  does not fit in memory is a \<^verbatim>\<open>MemoryError\<close>, which is not modelled: memory is taken
  to suffice.)
  \<open>np_linspace_points\<close> is the array before the floor, with \<^verbatim>\<open>start = 0\<close> as in the call.
  The cast to \<^verbatim>\<open>int64\<close> is exact for the indices of a video of fewer than \<open>2\<^sup>6\<^sup>3\<close>
  frames.
\<close>

definition np_linspace_points :: "int \<Rightarrow> int \<Rightarrow> error + rat list" where
  "np_linspace_points stop num =
     (if num < 0
      then Inl (ValueError (''Number of samples, '' @ str_int num @ '', must be non-negative.''))
      else if 2 ^ 60 \<le> num
      then Inl (ValueError ''array is too big'')
      else
        let dv = num - 1;
            stop_f = fl64 (of_int stop);
            delta = stop_f;
            y0 = map (\<lambda>i. fl64 (of_nat i)) [0..<nat num];
            y1 = (if 0 < dv then
                    let step = fl64 (delta / fl64 (of_int dv)) in
                    if step = 0
                    then map (\<lambda>v. fl64 (fl64 (v / fl64 (of_int dv)) * delta)) y0
                    else map (\<lambda>v. fl64 (v * step)) y0
                  else map (\<lambda>v. fl64 (v * delta)) y0)
        in Inr (if 1 < num then y1[nat num - 1 := stop_f] else y1))"

definition frame_id_list :: "int \<Rightarrow> int \<Rightarrow> error + int list" where
  "frame_id_list duration n =
     (case np_linspace_points (duration - 1) n of
        Inl e \<Rightarrow> Inl e
      | Inr y \<Rightarrow> Inr (map floor y))"

text \<open>
  The same selection as the specification words it: \<open>n\<close> points spaced linearly (evenly)
  over \<open>[0, D - 1]\<close> in exact arithmetic, each rounded to the nearest integer.
\<close>

definition spec_linear_point :: "int \<Rightarrow> int \<Rightarrow> nat \<Rightarrow> rat" where
  "spec_linear_point duration n i = of_nat i * of_int (duration - 1) / of_int (n - 1)"

definition spec_frame_ids_nearest :: "int \<Rightarrow> int \<Rightarrow> int list" where
  "spec_frame_ids_nearest duration n =
     map (\<lambda>i. rne (spec_linear_point duration n i)) [0..<nat n]"

section \<open>Tensors and decoded videos\<close>

text \<open>
  A tensor is its shape, its dtype and its elements by index. Pixel values and
  interpolation weights are exact rationals: no property stated below depends on how
  the float32 kernels round them. A decoded video is what \<^verbatim>\<open>decord.VideoReader\<close>
  exposes: a frame count and, per frame, \<open>height \<times> width \<times> 3\<close> bytes. The file system
  maps a path to the video stored there; for a path it cannot read, \<^verbatim>\<open>VideoReader\<close>
  raises \<^verbatim>\<open>RuntimeError\<close>.
\<close>

datatype torch_dtype = UInt8 | Float32

record tensor =
  shape :: "nat list"
  dtype :: torch_dtype
  elem :: "nat list \<Rightarrow> rat"

record video =
  n_frames :: nat
  height :: nat
  width :: nat
  pixel :: "nat \<Rightarrow> nat \<Rightarrow> nat \<Rightarrow> nat \<Rightarrow> nat"

type_synonym filesystem = "string \<rightharpoonup> video"

text \<open>
  Effects: Python's global random generator (the sequence of its future draws from
  \<open>[0, 1)\<close>), and a trace of the calls made to the collaborators, newest first.
\<close>

datatype event = Tokenizer_called | Image_processor_called string | Video_opened string

record world =
  rng :: "nat \<Rightarrow> rat"
  events :: "event list"

definition record_event :: "event \<Rightarrow> world \<Rightarrow> world" where
  "record_event ev w = w\<lparr>events := ev # events w\<rparr>"

definition random_random :: "world \<Rightarrow> rat \<times> world" where
  "random_random w = (rng w 0, w\<lparr>rng := (\<lambda>n. rng w (Suc n))\<rparr>)"

definition get_batch :: "video \<Rightarrow> int list \<Rightarrow> error + tensor" where
  \<comment> \<open>\<^verbatim>\<open>VideoReader.get_batch\<close>: negative indices count from the end, then a range check\<close>
  "get_batch v ids =
     (let d = int (n_frames v);
          ids' = map (\<lambda>i. if i < 0 then i + d else i) ids
      in if list_ex (\<lambda>i. i < 0) ids' then Inl (IndexError ''Invalid negative indices'')
         else if list_ex (\<lambda>i. d \<le> i) ids' then Inl (IndexError ''Out of bound indices'')
         else Inr \<lparr>shape = [length ids, height v, width v, 3], dtype = UInt8,
                   elem = (\<lambda>ix. case ix of
                             [n, h, w, c] \<Rightarrow> of_nat (pixel v (nat (ids' ! n)) h w c)
                           | _ \<Rightarrow> 0)\<rparr>)"

definition permute_3012 :: "tensor \<Rightarrow> error + tensor" where
  \<comment> \<open>\<^verbatim>\<open>x.permute(3, 0, 1, 2)\<close>: (T, H, W, C) to (C, T, H, W)\<close>
  "permute_3012 x =
     (case shape x of
        [t, h, w, c] \<Rightarrow>
          Inr (x\<lparr>shape := [c, t, h, w],
                 elem := (\<lambda>ix. case ix of [c', t', h', w'] \<Rightarrow> elem x [t', h', w', c'] | _ \<Rightarrow> 0)\<rparr>)
      | _ \<Rightarrow> Inl (RuntimeError ''permute: number of dims does not match''))"

definition torch_stack :: "tensor list \<Rightarrow> error + tensor" where
  "torch_stack ts =
     (case ts of
        [] \<Rightarrow> Inl (RuntimeError ''stack expects a non-empty TensorList'')
      | t # _ \<Rightarrow>
          if list_all (\<lambda>u. shape u = shape t) ts
          then Inr \<lparr>shape = length ts # shape t, dtype = dtype t,
                    elem = (\<lambda>ix. case ix of
                              [] \<Rightarrow> 0
                            | b # r \<Rightarrow> if b < length ts then elem (ts ! b) r else 0)\<rparr>
          else Inl (RuntimeError ''stack expects each tensor to be equal size''))"

section \<open>The transform pipeline\<close>

definition OPENAI_DATASET_MEAN :: "rat list" where
  "OPENAI_DATASET_MEAN = [48145466 / 100000000, 4578275 / 10000000, 40821073 / 100000000]"

definition OPENAI_DATASET_STD :: "rat list" where
  "OPENAI_DATASET_STD = [26862954 / 100000000, 26130258 / 100000000, 27577711 / 100000000]"

definition make_list_of_images :: "'a + 'a list \<Rightarrow> 'a list" where
  \<comment> \<open>\<open>Inl x\<close> is a value that is not a list, \<open>Inr xs\<close> a list\<close>
  "make_list_of_images x = (case x of Inl v \<Rightarrow> [v] | Inr xs \<Rightarrow> xs)"

definition lambda_div255 :: "tensor \<Rightarrow> tensor" where
  \<comment> \<open>\<^verbatim>\<open>Lambda(lambda x: x / 255.0)\<close>: true division, the result is float32\<close>
  "lambda_div255 x = x\<lparr>dtype := Float32, elem := (\<lambda>ix. elem x ix / 255)\<rparr>"

definition normalize_video :: "rat list \<Rightarrow> rat list \<Rightarrow> tensor \<Rightarrow> error + tensor" where
  \<comment> \<open>\<^verbatim>\<open>NormalizeVideo\<close>: \<^verbatim>\<open>clip.sub_(mean[:, None, None, None]).div_(std[:, None, None, None])\<close>\<close>
  "normalize_video mean std x =
     (case shape x of
        [c, t, h, w] \<Rightarrow>
          if c = length mean \<and> c = length std
          then Inr (x\<lparr>elem := (\<lambda>ix. case ix of
                                   [] \<Rightarrow> 0
                                 | k # r \<Rightarrow> if k < c then (elem x ix - mean ! k) / (std ! k) else 0)\<rparr>)
          else Inl (RuntimeError ''The size of tensor a must match the size of tensor b'')
      | _ \<Rightarrow> Inl (ValueError ''clip should be 4D''))"

definition short_side_scale_size :: "nat \<Rightarrow> nat \<Rightarrow> int \<Rightarrow> error + int \<times> int" where
  \<comment> \<open>lines 54 to 59 of \<^verbatim>\<open>ShortSideScale.forward\<close>; the result is \<open>(new_h, new_w)\<close>\<close>
  "short_side_scale_size h w sz =
     (if w < h
      then (case float_truediv (fl64 (of_nat h)) w of
              Inl e \<Rightarrow> Inl e
            | Inr q \<Rightarrow> Inr (\<lfloor>fl64 (q * fl64 (of_int sz))\<rfloor>, sz))
      else (case float_truediv (fl64 (of_nat w)) h of
              Inl e \<Rightarrow> Inl e
            | Inr q \<Rightarrow> Inr (sz, \<lfloor>fl64 (q * fl64 (of_int sz))\<rfloor>)))"

text \<open>
  The same sizes as the specification words them, in exact arithmetic.
\<close>

definition spec_short_side_scale_size :: "nat \<Rightarrow> nat \<Rightarrow> int \<Rightarrow> int \<times> int" where
  "spec_short_side_scale_size h w sz =
     (if w < h then (\<lfloor>of_nat h / of_nat w * (of_int sz :: rat)\<rfloor>, sz)
      else (sz, \<lfloor>of_nat w / of_nat h * (of_int sz :: rat)\<rfloor>))"

definition src_index :: "nat \<Rightarrow> nat \<Rightarrow> nat \<Rightarrow> rat" where
  \<comment> \<open>source coordinate of an output position, \<^verbatim>\<open>align_corners=False\<close>\<close>
  "src_index n_in n_out dst =
     max 0 ((of_nat dst + 1/2) * (of_nat n_in / of_nat n_out) - 1/2)"

definition bilinear :: "tensor \<Rightarrow> nat \<Rightarrow> nat \<Rightarrow> nat \<Rightarrow> nat \<Rightarrow> nat list \<Rightarrow> rat" where
  "bilinear x h w nh nw ix =
     (case ix of
        [c, t, i, j] \<Rightarrow>
          let sh = src_index h nh i; h1 = nat \<lfloor>sh\<rfloor>;
              h2 = (if h1 < h - 1 then h1 + 1 else h1); lh = sh - of_nat h1;
              sw = src_index w nw j; w1 = nat \<lfloor>sw\<rfloor>;
              w2 = (if w1 < w - 1 then w1 + 1 else w1); lw = sw - of_nat w1
          in (1 - lh) * ((1 - lw) * elem x [c, t, h1, w1] + lw * elem x [c, t, h1, w2])
             + lh * ((1 - lw) * elem x [c, t, h2, w1] + lw * elem x [c, t, h2, w2])
      | _ \<Rightarrow> 0)"

definition interpolate :: "tensor \<Rightarrow> int \<Rightarrow> int \<Rightarrow> error + tensor" where
  \<comment> \<open>\<^verbatim>\<open>torch.nn.functional.interpolate(x, size=(nh, nw), mode="bilinear", align_corners=False)\<close>\<close>
  "interpolate x nh nw =
     (case shape x of
        [c, t, h, w] \<Rightarrow>
          if t = 0 \<or> h = 0 \<or> w = 0
          then Inl (RuntimeError ''Non-empty 4D data tensor expected'')
          else if nh \<le> 0 \<or> nw \<le> 0
          then Inl (RuntimeError ''Input and output sizes should be greater than 0'')
          else Inr (x\<lparr>shape := [c, t, nat nh, nat nw],
                      elem := bilinear x h w (nat nh) (nat nw)\<rparr>)
      | _ \<Rightarrow> Inl (RuntimeError ''Got unsupported input dimensions for bilinear mode''))"

definition ShortSideScale_forward :: "int \<Rightarrow> tensor \<Rightarrow> error + tensor" where
  "ShortSideScale_forward sz x =
     (case shape x of
        [c, t, h, w] \<Rightarrow>
          (case dtype x of
             UInt8 \<Rightarrow> Inl AssertionError
           | Float32 \<Rightarrow>
               (case short_side_scale_size h w sz of
                  Inl e \<Rightarrow> Inl e
                | Inr (new_h, new_w) \<Rightarrow> interpolate x new_h new_w))
      | _ \<Rightarrow> Inl AssertionError)"

definition slice_len :: "nat \<Rightarrow> nat \<Rightarrow> nat \<Rightarrow> nat" where
  \<comment> \<open>length of \<^verbatim>\<open>a[i : i + k]\<close> for an axis of length \<open>n\<close>\<close>
  "slice_len n i k = min (i + k) n - min i n"

definition center_crop_video :: "nat \<Rightarrow> tensor \<Rightarrow> error + tensor" where
  \<comment> \<open>\<^verbatim>\<open>CenterCropVideo(crop)\<close>: offsets \<^verbatim>\<open>int(round((h - th) / 2.0))\<close>, then \<^verbatim>\<open>clip[..., i:i+th, j:j+tw]\<close>\<close>
  "center_crop_video crop x =
     (case shape x of
        [c, t, h, w] \<Rightarrow>
          if h < crop \<or> w < crop
          then Inl (ValueError ''height and width must be no smaller than crop_size'')
          else
            let i = nat (rne (fl64 (of_nat (h - crop) / 2)));
                j = nat (rne (fl64 (of_nat (w - crop) / 2)))
            in Inr (x\<lparr>shape := [c, t, slice_len h i crop, slice_len w j crop],
                       elem := (\<lambda>ix. case ix of
                                  [c', t', a, b] \<Rightarrow> elem x [c', t', a + i, b + j]
                                | _ \<Rightarrow> 0)\<rparr>)
      | _ \<Rightarrow> Inl (ValueError ''clip should be 4D''))"

definition hflip :: "tensor \<Rightarrow> tensor" where
  \<comment> \<open>\<^verbatim>\<open>clip.flip(-1)\<close>\<close>
  "hflip x =
     x\<lparr>elem := (\<lambda>ix. case shape x of
                   [c, t, h, w] \<Rightarrow>
                     (case ix of [c', t', a, b] \<Rightarrow> elem x [c', t', a, w - 1 - b] | _ \<Rightarrow> 0)
                 | _ \<Rightarrow> elem x ix)\<rparr>"

datatype stage =
    Lambda_div255
  | NormalizeVideo "rat list" "rat list"
  | ShortSideScale int
  | CenterCropVideo nat
  | RandomHorizontalFlipVideo rat

fun apply_stage :: "stage \<Rightarrow> tensor \<Rightarrow> world \<Rightarrow> (error + tensor) \<times> world" where
  "apply_stage Lambda_div255 x w = (Inr (lambda_div255 x), w)"
| "apply_stage (NormalizeVideo mean std) x w = (normalize_video mean std x, w)"
| "apply_stage (ShortSideScale sz) x w = (ShortSideScale_forward sz x, w)"
| "apply_stage (CenterCropVideo crop) x w = (center_crop_video crop x, w)"
| "apply_stage (RandomHorizontalFlipVideo p) x w =
     (case random_random w of (r, w') \<Rightarrow> (Inr (if r < p then hflip x else x), w'))"

fun Compose :: "stage list \<Rightarrow> tensor \<Rightarrow> world \<Rightarrow> (error + tensor) \<times> world" where
  "Compose [] x w = (Inr x, w)"
| "Compose (s # ss) x w =
     (case apply_stage s x w of
        (Inl e, w') \<Rightarrow> (Inl e, w')
      | (Inr y, w') \<Rightarrow> Compose ss y w')"

definition get_video_transform :: "string \<Rightarrow> error + stage list" where
  "get_video_transform video_decode_backend =
     (if video_decode_backend = ''decord''
      then Inr [Lambda_div255,
                NormalizeVideo OPENAI_DATASET_MEAN OPENAI_DATASET_STD,
                ShortSideScale 224,
                CenterCropVideo 224,
                RandomHorizontalFlipVideo (1/2)]
      else Inl (NameError
        (''video_decode_backend should specify in (pytorchvideo, decord, opencv) but got ''
          @ video_decode_backend)))"

definition load_and_transform_video ::
  "filesystem \<Rightarrow> string \<Rightarrow> stage list \<Rightarrow> string \<Rightarrow> int \<Rightarrow> world \<Rightarrow> (error + tensor) \<times> world" where
  \<comment> \<open>\<^verbatim>\<open>clip_start_sec\<close> and \<^verbatim>\<open>clip_end_sec\<close> are accepted by the source and never read\<close>
  "load_and_transform_video fs video_path transform video_decode_backend n w =
     (if video_decode_backend = ''decord''
      then
        let w1 = record_event (Video_opened video_path) w in
        (case fs video_path of
           None \<Rightarrow> (Inl (RuntimeError (''Error reading '' @ video_path @ ''...'')), w1)
         | Some decord_vr \<Rightarrow>
             (case frame_id_list (int (n_frames decord_vr)) n of
                Inl e \<Rightarrow> (Inl e, w1)
              | Inr ids \<Rightarrow>
                  (case get_batch decord_vr ids of
                     Inl e \<Rightarrow> (Inl e, w1)
                   | Inr video_data \<Rightarrow>
                       (case permute_3012 video_data of
                          Inl e \<Rightarrow> (Inl e, w1)
                        | Inr video_data' \<Rightarrow> Compose transform video_data' w1))))
      else (Inl (NameError ''video_decode_backend should specify in (pytorchvideo, decord, opencv)''), w))"

section \<open>The processor\<close>

record vision_config =
  video_decode_backend :: string
  num_frames :: int

record config =
  vision_config :: vision_config

datatype item = TokenIds "int list list" | PixelValues tensor

type_synonym encoding = "string \<rightharpoonup> item"

record 't tokenizer_args =
  text_arg :: 't
  max_length :: int
  padding :: string
  truncation :: bool
  return_tensors :: "string option"
  more_kwargs :: kwargs

record 't tokenizer =
  encode :: "'t tokenizer_args \<Rightarrow> error + encoding"
  tok_batch_decode :: "pyval list \<Rightarrow> kwargs \<Rightarrow> error + pyval"
  tok_decode :: "pyval list \<Rightarrow> kwargs \<Rightarrow> error + pyval"

record 't processor =
  config :: config
  transform :: "stage list"
  tokenizer :: "'t tokenizer"

definition LanguageBindVideoProcessor_init :: "config \<Rightarrow> 't tokenizer \<Rightarrow> error + 't processor" where
  "LanguageBindVideoProcessor_init cfg tok =
     (case get_video_transform (video_decode_backend (vision_config cfg)) of
        Inl e \<Rightarrow> Inl e
      | Inr tr \<Rightarrow> Inr \<lparr>config = cfg, transform = tr, tokenizer = tok\<rparr>)"

definition tokenize ::
  "'t processor \<Rightarrow> 't \<Rightarrow> int \<Rightarrow> string option \<Rightarrow> kwargs \<Rightarrow> world \<Rightarrow> (error + encoding) \<times> world" where
  \<comment> \<open>lines 119 to 126; a keyword passed twice is a \<^verbatim>\<open>TypeError\<close> at the call site\<close>
  "tokenize self t context_length rt kw w =
     (if list_ex (\<lambda>k. k \<in> dom kw) [''max_length'', ''padding'', ''truncation'']
      then (Inl (TypeError ''got multiple values for keyword argument''), w)
      else (encode (tokenizer self)
              \<lparr>text_arg = t, max_length = context_length, padding = ''max_length'',
               truncation = True, return_tensors = rt, more_kwargs = kw\<rparr>,
            record_event Tokenizer_called w))"

fun image_features ::
  "'t processor \<Rightarrow> filesystem \<Rightarrow> string list \<Rightarrow> world \<Rightarrow> (error + tensor list) \<times> world" where
  \<comment> \<open>the list comprehension of lines 130 to 138\<close>
  "image_features self fs [] w = (Inr [], w)"
| "image_features self fs (im # images) w =
     (case load_and_transform_video fs im (transform self)
             (video_decode_backend (vision_config (config self)))
             (num_frames (vision_config (config self)))
             (record_event (Image_processor_called im) w) of
        (Inl e, w') \<Rightarrow> (Inl e, w')
      | (Inr t, w') \<Rightarrow>
          (case image_features self fs images w' of
             (Inl e, w'') \<Rightarrow> (Inl e, w'')
           | (Inr ts, w'') \<Rightarrow> (Inr (t # ts), w'')))"

definition pixel_batch ::
  "'t processor \<Rightarrow> filesystem \<Rightarrow> string + string list \<Rightarrow> world \<Rightarrow> (error + tensor) \<times> world" where
  \<comment> \<open>lines 129 to 139\<close>
  "pixel_batch self fs images w =
     (case image_features self fs (make_list_of_images images) w of
        (Inl e, w') \<Rightarrow> (Inl e, w')
      | (Inr ts, w') \<Rightarrow> (torch_stack ts, w'))"

definition call ::
  "'t processor \<Rightarrow> filesystem \<Rightarrow> (string + string list) option \<Rightarrow> 't option \<Rightarrow> int \<Rightarrow>
     string option \<Rightarrow> kwargs \<Rightarrow> world \<Rightarrow> (error + encoding) \<times> world" where
  \<comment> \<open>\<^verbatim>\<open>LanguageBindVideoProcessor.__call__\<close>\<close>
  "call self fs images text_in context_length rt kw w =
     (case (text_in, images) of
        (None, None) \<Rightarrow>
          (Inl (ValueError ''You have to specify either text or images. Both cannot be none.''), w)
      | (Some t, None) \<Rightarrow> tokenize self t context_length rt kw w
      | (None, Some ims) \<Rightarrow>
          (case pixel_batch self fs ims w of
             (Inl e, w') \<Rightarrow> (Inl e, w')
           | (Inr px, w') \<Rightarrow> (Inr [''pixel_values'' \<mapsto> PixelValues px], w'))
      | (Some t, Some ims) \<Rightarrow>
          (case tokenize self t context_length rt kw w of
             (Inl e, w1) \<Rightarrow> (Inl e, w1)
           | (Inr enc, w1) \<Rightarrow>
               (case pixel_batch self fs ims w1 of
                  (Inl e, w2) \<Rightarrow> (Inl e, w2)
                | (Inr px, w2) \<Rightarrow> (Inr (enc(''pixel_values'' \<mapsto> PixelValues px)), w2))))"

definition preprocess ::
  "'t processor \<Rightarrow> filesystem \<Rightarrow> (string + string list) option \<Rightarrow> string option \<Rightarrow> world \<Rightarrow>
     (error + encoding) \<times> world" where
  "preprocess self fs images rt w = call self fs images None 77 rt Map.empty w"

text \<open>
  \<^verbatim>\<open>def batch_decode(self, skip_special_tokens=True, *args, **kwargs)\<close>: Python binds
  the first positional argument of a call to \<^verbatim>\<open>skip_special_tokens\<close> and only the
  rest to \<^verbatim>\<open>*args\<close>; the keyword of that name, when no positional argument is given;
  both at once is a \<^verbatim>\<open>TypeError\<close>. \<open>bind_decode_args\<close> is the pair of positional and
  keyword arguments that line 157 (and line 164) then passes to the tokenizer.
\<close>

definition bind_decode_args :: "pyval list \<Rightarrow> kwargs \<Rightarrow> error + pyval list \<times> kwargs" where
  "bind_decode_args args kw =
     (case args of
        [] \<Rightarrow>
          (case kw ''skip_special_tokens'' of
             None \<Rightarrow> Inr ([], kw(''skip_special_tokens'' \<mapsto> PBool True))
           | Some v \<Rightarrow> Inr ([], kw(''skip_special_tokens'' \<mapsto> v)))
      | a # rest \<Rightarrow>
          (case kw ''skip_special_tokens'' of
             None \<Rightarrow> Inr (rest, kw(''skip_special_tokens'' \<mapsto> a))
           | Some v \<Rightarrow> Inl (TypeError ''got multiple values for argument skip_special_tokens'')))"

definition batch_decode :: "'t processor \<Rightarrow> pyval list \<Rightarrow> kwargs \<Rightarrow> error + pyval" where
  "batch_decode self args kw =
     (case bind_decode_args args kw of
        Inl e \<Rightarrow> Inl e
      | Inr (args', kw') \<Rightarrow> tok_batch_decode (tokenizer self) args' kw')"

definition decode :: "'t processor \<Rightarrow> pyval list \<Rightarrow> kwargs \<Rightarrow> error + pyval" where
  "decode self args kw =
     (case bind_decode_args args kw of
        Inl e \<Rightarrow> Inl e
      | Inr (args', kw') \<Rightarrow> tok_decode (tokenizer self) args' kw')"

text \<open>
  Forwarding as the docstrings of lines 153 to 156 and 160 to 163 describe it: all
  arguments reach the tokenizer as they were given, with \<^verbatim>\<open>skip_special_tokens=True\<close>
  added when the caller named none.
\<close>

definition spec_forward_args :: "pyval list \<Rightarrow> kwargs \<Rightarrow> pyval list \<times> kwargs" where
  "spec_forward_args args kw =
     (case kw ''skip_special_tokens'' of
        None \<Rightarrow> (args, kw(''skip_special_tokens'' \<mapsto> PBool True))
      | Some v \<Rightarrow> (args, kw))"

section \<open>Concrete inputs\<close>

definition W0 :: world where
  \<comment> \<open>a generator whose draws are all \<open>1/4\<close>, and an empty trace\<close>
  "W0 = \<lparr>rng = (\<lambda>n. 1/4), events = []\<rparr>"

definition W1 :: world where
  \<comment> \<open>a generator whose draws are all \<open>3/4\<close>\<close>
  "W1 = \<lparr>rng = (\<lambda>n. 3/4), events = []\<rparr>"

definition W2 :: world where
  \<comment> \<open>a generator whose draws are all \<open>1/8\<close>\<close>
  "W2 = \<lparr>rng = (\<lambda>n. 1/8), events = []\<rparr>"

definition X0 :: tensor where
  \<comment> \<open>one RGB frame of height 1 and width 2: a black pixel left of a white one\<close>
  "X0 = \<lparr>shape = [3, 1, 1, 2], dtype = UInt8,
         elem = (\<lambda>ix. case ix of [c, t, h, w] \<Rightarrow> if w = 0 then 0 else 255 | _ \<Rightarrow> 0)\<rparr>"

definition V0 :: video where
  \<comment> \<open>a video of four such frames\<close>
  "V0 = \<lparr>n_frames = 4, height = 1, width = 2,
         pixel = (\<lambda>f h w c. if w = 0 then 0 else 255)\<rparr>"

definition FS0 :: filesystem where
  "FS0 = [''clip.mp4'' \<mapsto> V0]"

definition TOK0 :: "string tokenizer" where
  \<comment> \<open>a tokenizer that encodes every text as the ids \<open>1, 2\<close> and decodes to \<^verbatim>\<open>None\<close>\<close>
  "TOK0 = \<lparr>encode = (\<lambda>a. Inr [''input_ids'' \<mapsto> TokenIds [[1, 2]]]),
           tok_batch_decode = (\<lambda>args kw. Inr PNone),
           tok_decode = (\<lambda>args kw. Inr PNone)\<rparr>"

definition CFG0 :: config where
  "CFG0 = \<lparr>vision_config = \<lparr>video_decode_backend = ''decord'', num_frames = 3\<rparr>\<rparr>"

definition SELF0 :: "string processor" where
  "SELF0 = \<lparr>config = CFG0,
            transform = [Lambda_div255, NormalizeVideo OPENAI_DATASET_MEAN OPENAI_DATASET_STD,
                         ShortSideScale 224, CenterCropVideo 224, RandomHorizontalFlipVideo (1/2)],
            tokenizer = TOK0\<rparr>"

definition TOK_NONE :: "string tokenizer" where
  \<comment> \<open>\<^verbatim>\<open>tokenizer=None\<close>, the default of \<^verbatim>\<open>__init__\<close>: calling it is a \<^verbatim>\<open>TypeError\<close>\<close>
  "TOK_NONE = \<lparr>encode = (\<lambda>a. Inl (TypeError ''NoneType object is not callable'')),
               tok_batch_decode = (\<lambda>args kw. Inl (AttributeError ''NoneType object has no attribute batch_decode'')),
               tok_decode = (\<lambda>args kw. Inl (AttributeError ''NoneType object has no attribute decode''))\<rparr>"

definition SELF_NONE :: "string processor" where
  \<comment> \<open>the processor built without a tokenizer\<close>
  "SELF_NONE = SELF0\<lparr>tokenizer := TOK_NONE\<rparr>"

definition ENC_PIXEL :: encoding where
  "ENC_PIXEL = [''input_ids'' \<mapsto> TokenIds [[1, 2]], ''pixel_values'' \<mapsto> PixelValues X0]"

definition TOK_PIXEL :: "string tokenizer" where
  \<comment> \<open>a tokenizer whose encoding has an entry \<^verbatim>\<open>pixel_values\<close> of its own\<close>
  "TOK_PIXEL = \<lparr>encode = (\<lambda>a. Inr ENC_PIXEL),
                tok_batch_decode = (\<lambda>args kw. Inr PNone),
                tok_decode = (\<lambda>args kw. Inr PNone)\<rparr>"

definition SELF_PIXEL :: "string processor" where
  "SELF_PIXEL = SELF0\<lparr>tokenizer := TOK_PIXEL\<rparr>"

definition TOK_RAISING :: "string tokenizer" where
  \<comment> \<open>a tokenizer that rejects its input with a \<^verbatim>\<open>ValueError\<close>\<close>
  "TOK_RAISING = \<lparr>encode = (\<lambda>a. Inl (ValueError ''text input must be of type str'')),
                  tok_batch_decode = (\<lambda>args kw. Inr PNone),
                  tok_decode = (\<lambda>args kw. Inr PNone)\<rparr>"

definition SELF_RAISING :: "string processor" where
  "SELF_RAISING = SELF0\<lparr>tokenizer := TOK_RAISING\<rparr>"

definition CFG_NEG :: config where
  "CFG_NEG = \<lparr>vision_config = \<lparr>video_decode_backend = ''decord'', num_frames = - 1\<rparr>\<rparr>"

definition SELF_NEG :: "string processor" where
  "SELF_NEG = SELF0\<lparr>config := CFG_NEG\<rparr>"

definition CFG_BIG :: config where
  "CFG_BIG = \<lparr>vision_config = \<lparr>video_decode_backend = ''decord'', num_frames = 2 ^ 62\<rparr>\<rparr>"

definition SELF_BIG :: "string processor" where
  "SELF_BIG = SELF0\<lparr>config := CFG_BIG\<rparr>"

section \<open>Exceptions\<close>

lemma is_ValueError_Inl [simp]: "is_ValueError (Inl e) = is_value_error e"
  by (simp add: is_ValueError_def)

lemma is_ValueError_Inr [simp]: "is_ValueError (Inr v) = False"
  by (simp add: is_ValueError_def)

lemma is_ValueError_map [simp]:
  "is_ValueError (case r of Inl e \<Rightarrow> Inl e | Inr v \<Rightarrow> Inr (f v)) = is_ValueError r"
  by (cases r) simp_all

section \<open>Properties of the rounding\<close>

text \<open>
  The facts about \<open>fl64\<close> that the claims rest on: it is monotone, it leaves every
  number with a 53-bit significand unchanged (so every integer up to \<open>2\<^sup>5\<^sup>3\<close>), its
  relative error is at most \<open>2\<^sup>-\<^sup>5\<^sup>3\<close>, and below \<open>2\<^sup>5\<^sup>2\<close> adding one to the argument
  adds at least one to the floor of the result.
\<close>

lemma p2_less_iff: "(2::rat) powi a < 2 powi b \<longleftrightarrow> a < b"
proof
  assume "(2::rat) powi a < 2 powi b"
  show "a < b"
  proof (rule ccontr)
    assume "\<not> a < b"
    then have "b \<le> a" by simp
    then have "(2::rat) powi b \<le> 2 powi a" by (intro power_int_increasing) auto
    with \<open>(2::rat) powi a < 2 powi b\<close> show False by simp
  qed
next
  assume "a < b"
  then show "(2::rat) powi a < 2 powi b" by (intro power_int_strict_increasing) auto
qed

lemma p2_le_iff: "(2::rat) powi a \<le> 2 powi b \<longleftrightarrow> a \<le> b"
  using p2_less_iff[of b a] by (auto simp: not_less[symmetric])

lemma bitlen_powi_bounds:
  assumes "0 < p"
  shows "(2::rat) powi (bitlen p - 1) \<le> of_int p" "of_int p < (2::rat) powi (bitlen p)"
proof -
  from bitlen_bounds[OF assms] have a: "2 ^ nat (bitlen p - 1) \<le> p" and b: "p < 2 ^ nat (bitlen p)" by auto
  have ge1: "1 \<le> bitlen p" using assms by (auto simp: bitlen_alt_def)
  have "(2::rat) powi (bitlen p - 1) = 2 ^ nat (bitlen p - 1)"
    using ge1 by (simp add: power_int_nonneg_exp)
  also have "\<dots> = of_int (2 ^ nat (bitlen p - 1))" by simp
  also have "\<dots> \<le> of_int p" using a by (simp only: of_int_le_iff)
  finally show "(2::rat) powi (bitlen p - 1) \<le> of_int p" .
  have "of_int p < (of_int (2 ^ nat (bitlen p)) :: rat)" using b by (simp only: of_int_less_iff)
  also have "\<dots> = 2 ^ nat (bitlen p)" by simp
  also have "\<dots> = (2::rat) powi (bitlen p)" using ge1 by (simp add: power_int_nonneg_exp)
  finally show "of_int p < (2::rat) powi (bitlen p)" .
qed

lemma ilog2_bounds:
  assumes "0 < x"
  shows "2 powi (ilog2 x) \<le> x" "x < 2 powi (ilog2 x + 1)"
proof -
  obtain p q where pq: "quotient_of x = (p, q)" by (cases "quotient_of x")
  then have q: "0 < q" and x: "x = of_int p / of_int q"
    by (auto dest: quotient_of_denom_pos quotient_of_div)
  have p: "0 < p" using assms q x by (simp add: zero_less_divide_iff)
  define d where "d = bitlen p - bitlen q"
  have lo: "(2::rat) powi (d - 1) \<le> x"
  proof -
    have "(2::rat) powi (d - 1) * of_int q \<le> 2 powi (d - 1) * 2 powi (bitlen q)"
      using bitlen_powi_bounds(2)[OF q] by (intro mult_left_mono) auto
    also have "\<dots> = 2 powi (bitlen p - 1)" by (simp add: d_def flip: power_int_add)
    also have "\<dots> \<le> of_int p" by (rule bitlen_powi_bounds(1)[OF p])
    finally show ?thesis using q by (simp add: x pos_le_divide_eq)
  qed
  have hi: "x < (2::rat) powi (d + 1)"
  proof -
    have "of_int p < (2::rat) powi (bitlen p)" by (rule bitlen_powi_bounds(2)[OF p])
    also have "\<dots> = 2 powi (d + 1) * 2 powi (bitlen q - 1)" by (simp add: d_def flip: power_int_add)
    also have "\<dots> \<le> 2 powi (d + 1) * of_int q"
      using bitlen_powi_bounds(1)[OF q] by (intro mult_left_mono) auto
    finally show ?thesis using q by (simp add: x pos_divide_less_eq)
  qed
  have il: "ilog2 x = (if 2 powi d \<le> x then d else d - 1)"
    by (simp add: ilog2_def pq d_def Let_def)
  show "2 powi (ilog2 x) \<le> x" using lo by (simp add: il)
  show "x < 2 powi (ilog2 x + 1)" using hi by (auto simp add: il not_le)
qed

lemma ilog2_unique:
  assumes "0 < x" "2 powi k \<le> x" "x < 2 powi (k + 1)"
  shows "ilog2 x = k"
proof -
  have "(2::rat) powi k < 2 powi (ilog2 x + 1)"
    using assms(2) ilog2_bounds(2)[OF assms(1)] by (rule le_less_trans)
  then have a: "k < ilog2 x + 1" by (simp add: p2_less_iff)
  have "(2::rat) powi (ilog2 x) < 2 powi (k + 1)"
    using ilog2_bounds(1)[OF assms(1)] assms(3) by (rule le_less_trans)
  then have "ilog2 x < k + 1" by (simp add: p2_less_iff)
  with a show ?thesis by simp
qed

lemma ilog2_mono:
  assumes "0 < x" "x \<le> y"
  shows "ilog2 x \<le> ilog2 y"
proof -
  have y: "0 < y" using assms by simp
  have "(2::rat) powi (ilog2 x) \<le> x" by (rule ilog2_bounds(1)[OF assms(1)])
  also have "\<dots> \<le> y" by fact
  also have "\<dots> < 2 powi (ilog2 y + 1)" by (rule ilog2_bounds(2)[OF y])
  finally show ?thesis by (simp add: p2_less_iff)
qed

lemma rne_of_int: "rne (of_int n) = n"
  by (simp add: rne_def)

lemma rne_bounds: "\<lfloor>x\<rfloor> \<le> rne x" "rne x \<le> \<lfloor>x\<rfloor> + 1"
  by (simp_all add: rne_def Let_def)

lemma rne_error: "\<bar>of_int (rne x) - x\<bar> \<le> 1/2"
proof -
  have "of_int \<lfloor>x\<rfloor> \<le> x" "x < of_int \<lfloor>x\<rfloor> + 1" by linarith+
  then show ?thesis by (auto simp add: rne_def Let_def)
qed

lemma rne_mono:
  assumes "x \<le> y"
  shows "rne x \<le> rne y"
proof (cases "\<lfloor>x\<rfloor> = \<lfloor>y\<rfloor>")
  case True
  then show ?thesis using assms by (auto simp add: rne_def Let_def)
next
  case False
  then have "\<lfloor>x\<rfloor> + 1 \<le> \<lfloor>y\<rfloor>" using floor_mono[OF assms] by simp
  then show ?thesis using rne_bounds(2)[of x] rne_bounds(1)[of y] by linarith
qed

lemma rne_ge_int: "of_int n \<le> x \<Longrightarrow> n \<le> rne x"
  using rne_mono[of "of_int n" x] by (simp add: rne_of_int)

lemma rne_le_int: "x \<le> of_int n \<Longrightarrow> rne x \<le> n"
  using rne_mono[of x "of_int n"] by (simp add: rne_of_int)


lemma p2_52: "(2::rat) ^ 52 * 2 powi (k - 52) = 2 powi k"
proof -
  have "(2::rat) powi (52 + (k - 52)) = 2 powi 52 * 2 powi (k - 52)" by (rule power_int_add) simp
  then show ?thesis by simp
qed

lemma p2_53: "(2::rat) ^ 53 * 2 powi (k - 52) = 2 powi (k + 1)"
proof -
  have "(2::rat) powi (53 + (k - 52)) = 2 powi 53 * 2 powi (k - 52)" by (rule power_int_add) simp
  then show ?thesis by (simp add: ac_simps)
qed

lemma p2_half: "(2::rat) powi (k - 52) / 2 = 2 powi (k - 53)"
proof -
  have "(2::rat) powi (1 + (k - 53)) = 2 powi 1 * 2 powi (k - 53)" by (rule power_int_add) simp
  then show ?thesis by simp
qed

lemma p2_53': "(2::rat) powi (k - 53) = 2 powi k / 2 ^ 53"
proof -
  have "(2::rat) powi (53 + (k - 53)) = 2 powi 53 * 2 powi (k - 53)" by (rule power_int_add) simp
  then show ?thesis by simp
qed

lemma fl64_zero: "fl64 0 = 0"
  by (simp add: fl64_def)

lemma fl64_pos:
  "0 < x \<Longrightarrow> fl64 x = of_int (rne (x / 2 powi (ilog2 x - 52))) * 2 powi (ilog2 x - 52)"
  by (simp add: fl64_def Let_def)

lemma fl64_minus: "fl64 (- x) = - fl64 x"
  by (simp add: fl64_def Let_def sgn_minus)

lemma scaled_bounds:
  assumes "0 < x"
  shows "2 ^ 52 \<le> x / 2 powi (ilog2 x - 52)" "x / 2 powi (ilog2 x - 52) < 2 ^ 53"
proof -
  have pos: "(0::rat) < 2 powi (ilog2 x - 52)" by simp
  have "(2::rat) ^ 52 * 2 powi (ilog2 x - 52) = 2 powi (ilog2 x)" by (rule p2_52)
  also have "\<dots> \<le> x" by (rule ilog2_bounds(1)[OF assms])
  finally show "2 ^ 52 \<le> x / 2 powi (ilog2 x - 52)" using pos by (simp add: pos_le_divide_eq)
  have "x < 2 powi (ilog2 x + 1)" by (rule ilog2_bounds(2)[OF assms])
  also have "\<dots> = 2 ^ 53 * 2 powi (ilog2 x - 52)" by (rule p2_53[symmetric])
  finally show "x / 2 powi (ilog2 x - 52) < 2 ^ 53" using pos by (simp add: pos_divide_less_eq)
qed

lemma fl64_range:
  assumes "0 < x"
  shows "2 powi (ilog2 x) \<le> fl64 x" "fl64 x \<le> 2 powi (ilog2 x + 1)"
proof -
  let ?e = "ilog2 x - 52"
  have "(of_int (2 ^ 52) :: rat) \<le> x / 2 powi ?e" using scaled_bounds(1)[OF assms] by simp
  then have "2 ^ 52 \<le> rne (x / 2 powi ?e)" by (rule rne_ge_int)
  then have "(of_int (2 ^ 52) :: rat) \<le> of_int (rne (x / 2 powi ?e))" by (simp only: of_int_le_iff)
  then have "(2::rat) ^ 52 * 2 powi ?e \<le> of_int (rne (x / 2 powi ?e)) * 2 powi ?e"
    by (intro mult_right_mono) auto
  then show "2 powi (ilog2 x) \<le> fl64 x" by (simp only: p2_52 fl64_pos[OF assms])
  have "x / 2 powi ?e \<le> (of_int (2 ^ 53) :: rat)" using scaled_bounds(2)[OF assms] by simp
  then have "rne (x / 2 powi ?e) \<le> 2 ^ 53" by (rule rne_le_int)
  then have "(of_int (rne (x / 2 powi ?e)) :: rat) \<le> of_int (2 ^ 53)" by (simp only: of_int_le_iff)
  then have "of_int (rne (x / 2 powi ?e)) * 2 powi ?e \<le> (2::rat) ^ 53 * 2 powi ?e"
    by (intro mult_right_mono) auto
  then show "fl64 x \<le> 2 powi (ilog2 x + 1)" by (simp only: p2_53 fl64_pos[OF assms])
qed

lemma fl64_pos_pos: "0 < x \<Longrightarrow> 0 < fl64 x"
  using fl64_range(1)[of x] zero_less_power_int[of "2::rat" "ilog2 x"] by linarith

lemma fl64_mono_pos:
  assumes "0 < x" "x \<le> y"
  shows "fl64 x \<le> fl64 y"
proof -
  have y: "0 < y" using assms by simp
  show ?thesis
  proof (cases "ilog2 x = ilog2 y")
    case True
    have "x / 2 powi (ilog2 y - 52) \<le> y / 2 powi (ilog2 y - 52)"
      using assms(2) by (intro divide_right_mono) auto
    then have "rne (x / 2 powi (ilog2 y - 52)) \<le> rne (y / 2 powi (ilog2 y - 52))" by (rule rne_mono)
    then have "(of_int (rne (x / 2 powi (ilog2 y - 52))) :: rat) \<le> of_int (rne (y / 2 powi (ilog2 y - 52)))"
      by (simp only: of_int_le_iff)
    then show ?thesis
      by (simp add: fl64_pos[OF assms(1)] fl64_pos[OF y] True mult_right_mono)
  next
    case False
    then have "ilog2 x + 1 \<le> ilog2 y" using ilog2_mono[OF assms] by simp
    then have "(2::rat) powi (ilog2 x + 1) \<le> 2 powi (ilog2 y)" by (simp add: p2_le_iff)
    then show ?thesis using fl64_range(2)[OF assms(1)] fl64_range(1)[OF y] by linarith
  qed
qed

lemma fl64_mono:
  assumes "x \<le> y"
  shows "fl64 x \<le> fl64 y"
proof -
  consider "0 < x" | "x = 0" "y = 0" | "x = 0" "0 < y" | "x < 0" "0 \<le> y" | "x < 0" "y < 0"
    using assms by linarith
  then show ?thesis
  proof cases
    case 1 then show ?thesis using assms by (rule fl64_mono_pos)
  next
    case 2 then show ?thesis by simp
  next
    case 3 then show ?thesis using fl64_pos_pos[of y] by (simp add: fl64_zero)
  next
    case 4
    have "fl64 x < 0" using fl64_pos_pos[of "- x"] 4 by (simp add: fl64_minus)
    moreover have "0 \<le> fl64 y" using fl64_pos_pos[of y] 4 by (cases "y = 0") (auto simp: fl64_zero)
    ultimately show ?thesis by simp
  next
    case 5
    have "fl64 (- y) \<le> fl64 (- x)" using 5 assms by (intro fl64_mono_pos) auto
    then show ?thesis by (simp add: fl64_minus)
  qed
qed

lemma fl64_error:
  assumes "0 < x"
  shows "\<bar>fl64 x - x\<bar> \<le> 2 powi (ilog2 x - 53)"
proof -
  let ?e = "ilog2 x - 52"
  have pos: "(0::rat) < 2 powi ?e" by simp
  have "fl64 x - x = (of_int (rne (x / 2 powi ?e)) - x / 2 powi ?e) * 2 powi ?e"
    by (simp add: fl64_pos[OF assms] algebra_simps)
  then have "\<bar>fl64 x - x\<bar> = \<bar>of_int (rne (x / 2 powi ?e)) - x / 2 powi ?e\<bar> * 2 powi ?e"
    by (simp add: abs_mult)
  also have "\<dots> \<le> 1/2 * 2 powi ?e"
    by (intro mult_right_mono rne_error) auto
  also have "\<dots> = 2 powi (ilog2 x - 53)" using p2_half[of "ilog2 x"] by simp
  finally show ?thesis .
qed

lemma fl64_rel_error:
  assumes "0 < x"
  shows "\<bar>fl64 x - x\<bar> \<le> x / 2 ^ 53"
proof -
  have "(2::rat) powi (ilog2 x - 53) = 2 powi (ilog2 x) / 2 ^ 53" by (rule p2_53')
  also have "\<dots> \<le> x / 2 ^ 53" using ilog2_bounds(1)[OF assms] by (intro divide_right_mono) auto
  finally show ?thesis using fl64_error[OF assms] by linarith
qed

lemma ilog2_scale:
  assumes "0 < x"
  shows "ilog2 (x * 2 powi j) = ilog2 x + j"
proof (rule ilog2_unique)
  show "0 < x * 2 powi j" using assms by simp
  have "(2::rat) powi (ilog2 x + j) = 2 powi (ilog2 x) * 2 powi j" by (simp add: power_int_add)
  also have "\<dots> \<le> x * 2 powi j" using ilog2_bounds(1)[OF assms] by (intro mult_right_mono) auto
  finally show "2 powi (ilog2 x + j) \<le> x * 2 powi j" .
  have "x * 2 powi j < 2 powi (ilog2 x + 1) * 2 powi j"
    using ilog2_bounds(2)[OF assms] by (intro mult_strict_right_mono) auto
  also have "\<dots> = 2 powi (ilog2 x + j + 1)" by (simp flip: power_int_add add: ac_simps)
  finally show "x * 2 powi j < 2 powi (ilog2 x + j + 1)" .
qed

lemma fl64_representable:
  assumes "0 < m" "m < 2 ^ 53"
  shows "fl64 (of_int m * 2 powi j) = of_int m * 2 powi j"
proof -
  let ?x = "of_int m * 2 powi j :: rat"
  have m: "(0::rat) < of_int m" using assms by simp
  have x: "0 < ?x" using m by simp
  have "(2::rat) powi (ilog2 (of_int m)) \<le> of_int m" by (rule ilog2_bounds(1)[OF m])
  also have "\<dots> < of_int (2 ^ 53)" using assms(2) by (simp only: of_int_less_iff)
  also have "\<dots> = (2::rat) powi 53" by simp
  finally have "(2::rat) powi (ilog2 (of_int m)) < 2 powi 53" .
  then have "ilog2 (rat_of_int m) < 53" by (simp only: p2_less_iff)
  then have k: "ilog2 (rat_of_int m) \<le> 52" by simp
  have e: "ilog2 ?x - 52 = ilog2 (of_int m) + j - 52" by (simp add: ilog2_scale[OF m])
  define n where "n = nat (52 - ilog2 (of_int m))"
  have "?x / 2 powi (ilog2 ?x - 52) = of_int m * (2 powi j / 2 powi (ilog2 (of_int m) + j - 52))"
    by (simp add: e)
  also have "2 powi j / 2 powi (ilog2 (of_int m) + j - 52) = (2::rat) powi (52 - ilog2 (of_int m))"
    by (simp flip: power_int_diff)
  also have "\<dots> = 2 ^ n" using k by (simp add: n_def power_int_nonneg_exp)
  also have "of_int m * 2 ^ n = (of_int (m * 2 ^ n) :: rat)" by simp
  finally have sc: "?x / 2 powi (ilog2 ?x - 52) = of_int (m * 2 ^ n)" .
  have "fl64 ?x = of_int (m * 2 ^ n) * 2 powi (ilog2 ?x - 52)"
    by (simp only: fl64_pos[OF x] sc rne_of_int)
  also have "\<dots> = (?x / 2 powi (ilog2 ?x - 52)) * 2 powi (ilog2 ?x - 52)" by (simp only: sc)
  also have "\<dots> = ?x" by simp
  finally show ?thesis .
qed

lemma fl64_of_int:
  assumes "0 \<le> n" "n \<le> 2 ^ 53"
  shows "fl64 (of_int n) = of_int n"
proof -
  consider "n = 0" | "0 < n" "n < 2 ^ 53" | "n = 2 ^ 53" using assms by linarith
  then show ?thesis
  proof cases
    case 1 then show ?thesis by (simp add: fl64_zero)
  next
    case 2 then show ?thesis using fl64_representable[of n 0] by simp
  next
    case 3 then show ?thesis using fl64_representable[of 1 53] by simp
  qed
qed

lemma rne_ge_even_half:
  assumes "of_int T - 1/2 \<le> z" "even T"
  shows "T \<le> rne z"
proof (cases "of_int T \<le> z")
  case True
  then show ?thesis by (rule rne_ge_int)
next
  case False
  then have lt: "z < of_int T" by simp
  have fl: "\<lfloor>z\<rfloor> = T - 1"
  proof (rule floor_unique)
    show "of_int (T - 1) \<le> z" using assms(1) by simp
    show "z < of_int (T - 1) + 1" using lt by simp
  qed
  have odd: "\<not> even (T - 1)" using assms(2) by simp
  have r: "1/2 \<le> z - of_int (T - 1)" using assms(1) by simp
  show ?thesis using r odd by (simp add: rne_def fl Let_def)
qed

lemma fl64_floor_step:
  assumes "0 \<le> x" "x + 1 < 2 ^ 52"
  shows "\<lfloor>fl64 x\<rfloor> + 1 \<le> \<lfloor>fl64 (x + 1)\<rfloor>"
proof -
  define k where "k = \<lfloor>fl64 x\<rfloor>"
  have x1pos: "0 < x + 1" using assms by simp
  have k_le: "of_int k \<le> fl64 x" by (simp add: k_def)
  have "fl64 x \<le> fl64 (of_int (2 ^ 52))" using assms by (intro fl64_mono) simp
  also have "\<dots> = of_int (2 ^ 52)" by (rule fl64_of_int) simp_all
  finally have "of_int k \<le> (of_int (2 ^ 52) :: rat)" using k_le by simp
  then have k52: "k \<le> 2 ^ 52" by (simp only: of_int_le_iff)
  have "fl64 0 \<le> fl64 x" using assms by (intro fl64_mono)
  then have "0 \<le> fl64 x" by (simp add: fl64_zero)
  then have k0: "0 \<le> k" by (simp add: k_def)
  have goal: "of_int (k + 1) \<le> fl64 (x + 1)"
  proof (cases "of_int k \<le> x")
    case True
    have "fl64 (of_int (k + 1)) \<le> fl64 (x + 1)" using True by (intro fl64_mono) simp
    moreover have "fl64 (of_int (k + 1)) = of_int (k + 1)"
      using k0 k52 by (intro fl64_of_int) simp_all
    ultimately show ?thesis by simp
  next
    case False
    then have xk: "x < of_int k" by simp
    have "fl64 x \<le> fl64 (of_int k)" using xk by (intro fl64_mono) simp
    also have "fl64 (of_int k) = of_int k" using k0 k52 by (intro fl64_of_int) simp_all
    finally have flx: "fl64 x = of_int k" using k_le by simp
    have xpos: "0 < x"
    proof (rule ccontr)
      assume "\<not> 0 < x"
      then have "x = 0" using assms by simp
      then show False using flx xk by (simp add: fl64_zero)
    qed
    define e where "e = ilog2 x - 52"
    define e' where "e' = ilog2 (x + 1) - 52"
    have ee': "e \<le> e'" using ilog2_mono[of x "x + 1"] xpos by (simp add: e_def e'_def)
    have "(2::rat) powi (ilog2 (x + 1)) \<le> x + 1" by (rule ilog2_bounds(1)[OF x1pos])
    also have "\<dots> < 2 powi 52" using assms(2) by simp
    finally have "ilog2 (x + 1) < 52" by (simp only: p2_less_iff)
    then have e'neg: "e' \<le> - 1" by (simp add: e'_def)
    define n where "n = nat (- e')"
    have n1: "1 \<le> n" using e'neg by (simp add: n_def)
    have pw: "(2::rat) powi e' = 1 / 2 ^ n"
    proof -
      have "(2::rat) powi e' = 2 powi (- int n)" using e'neg by (simp add: n_def)
      also have "\<dots> = 1 / 2 ^ n" by (simp add: power_int_minus divide_inverse)
      finally show ?thesis .
    qed
    define T where "T = (k + 1) * 2 ^ n"
    have Teven: "even T" using n1 by (simp add: T_def)
    have Tq: "of_int T * (2::rat) powi e' = of_int (k + 1)" by (simp add: T_def pw)
    have err: "\<bar>fl64 x - x\<bar> \<le> 2 powi (ilog2 x - 53)" by (rule fl64_error[OF xpos])
    have half: "(2::rat) powi (ilog2 x - 53) = 2 powi e / 2" using p2_half[of "ilog2 x"] by (simp add: e_def)
    have "(2::rat) powi e \<le> 2 powi e'" using ee' by (simp only: p2_le_iff)
    moreover have "\<bar>of_int k - x\<bar> \<le> 2 powi e / 2" using err half flx by simp
    ultimately have xlow: "of_int k - 2 powi e' / 2 \<le> x" by linarith
    have e'pos: "(0::rat) < 2 powi e'" by simp
    have "(of_int T * 2 powi e' - 2 powi e' / 2) / 2 powi e' = (of_int T :: rat) - 1/2"
      using e'pos by (simp add: field_simps)
    then have "(of_int T :: rat) - 1/2 = (of_int (k + 1) - 2 powi e' / 2) / 2 powi e'"
      by (simp only: Tq)
    also have "\<dots> \<le> (x + 1) / 2 powi e'"
      using xlow e'pos by (intro divide_right_mono) simp_all
    finally have "T \<le> rne ((x + 1) / 2 powi e')" using Teven by (rule rne_ge_even_half)
    then have "(of_int T :: rat) \<le> of_int (rne ((x + 1) / 2 powi e'))" by (simp only: of_int_le_iff)
    then have "(of_int T :: rat) * 2 powi e' \<le> of_int (rne ((x + 1) / 2 powi e')) * 2 powi e'"
      using e'pos by (intro mult_right_mono) simp_all
    then have "of_int (k + 1) \<le> of_int (rne ((x + 1) / 2 powi e')) * (2::rat) powi e'"
      by (simp only: Tq)
    moreover have "fl64 (x + 1) = of_int (rne ((x + 1) / 2 powi e')) * 2 powi e'"
      unfolding e'_def by (rule fl64_pos[OF x1pos])
    ultimately show ?thesis by simp
  qed
  then have "k + 1 \<le> \<lfloor>fl64 (x + 1)\<rfloor>" by (simp only: le_floor_iff)
  then show ?thesis by (simp add: k_def)
qed

lemma fl64_eq_0_iff: "fl64 x = 0 \<longleftrightarrow> x = 0"
proof
  assume a: "fl64 x = 0"
  show "x = 0"
  proof (rule ccontr)
    assume "x \<noteq> 0"
    then consider "0 < x" | "0 < - x" by linarith
    then show False
    proof cases
      case 1 then show False using fl64_pos_pos[of x] a by simp
    next
      case 2 then show False using fl64_pos_pos[of "- x"] a by (simp add: fl64_minus)
    qed
  qed
qed (simp add: fl64_zero)

lemma fl64_nonneg: "0 \<le> x \<Longrightarrow> 0 \<le> fl64 x"
  using fl64_mono[of 0 x] by (simp add: fl64_zero)

lemma fl64_one: "fl64 1 = 1"
  using fl64_of_int[of 1] by simp

lemma fl64_of_nat: "n \<le> 2 ^ 53 \<Longrightarrow> fl64 (of_nat n) = of_nat n"
  using fl64_of_int[of "int n"] by simp

lemma fl64_upper:
  assumes "0 \<le> x"
  shows "fl64 x \<le> x + x / 2 ^ 53"
proof (cases "x = 0")
  case True then show ?thesis by (simp add: fl64_zero)
next
  case False
  then have "\<bar>fl64 x - x\<bar> \<le> x / 2 ^ 53" using assms by (intro fl64_rel_error) simp
  then show ?thesis by linarith
qed

lemma fl64_lower:
  assumes "0 \<le> x"
  shows "x - x / 2 ^ 53 \<le> fl64 x"
proof (cases "x = 0")
  case True then show ?thesis by (simp add: fl64_zero)
next
  case False
  then have "\<bar>fl64 x - x\<bar> \<le> x / 2 ^ 53" using assms by (intro fl64_rel_error) simp
  then show ?thesis by linarith
qed

lemma fl64_half_int:
  assumes "0 \<le> k" "k < 2 ^ 52"
  shows "fl64 (of_int k + 1/2) = of_int k + 1/2"
proof -
  have eq: "of_int (2 * k + 1) * 2 powi (- 1) = (of_int k + 1/2 :: rat)"
    by (simp add: power_int_minus field_simps)
  have "fl64 (of_int (2 * k + 1) * 2 powi (- 1)) = of_int (2 * k + 1) * 2 powi (- 1)"
    using assms by (intro fl64_representable) simp_all
  then show ?thesis unfolding eq .
qed

lemma fl64_abs_error:
  assumes "0 \<le> x"
  shows "\<bar>fl64 x - x\<bar> \<le> x / 2 ^ 53"
proof (cases "x = 0")
  case True then show ?thesis by (simp add: fl64_zero)
next
  case False
  then show ?thesis using assms by (intro fl64_rel_error) simp
qed

lemma fl64_scaled_error:
  assumes "0 \<le> c" "0 \<le> q"
  shows "\<bar>fl64 (c * fl64 q) - c * q\<bar> \<le> c * q / 2 ^ 51"
proof -
  define t where "t = c * q"
  define x where "x = c * fl64 q"
  have t0: "0 \<le> t" using assms by (simp add: t_def)
  have x0: "0 \<le> x" using fl64_nonneg[OF assms(2)] assms(1) by (simp add: x_def)
  have "x - t = c * (fl64 q - q)" by (simp add: x_def t_def algebra_simps)
  then have "\<bar>x - t\<bar> = c * \<bar>fl64 q - q\<bar>" using assms(1) by (simp add: abs_mult)
  also have "\<dots> \<le> c * (q / 2 ^ 53)"
    using fl64_abs_error[OF assms(2)] assms(1) by (intro mult_left_mono) simp_all
  also have "\<dots> = t / 2 ^ 53" by (simp add: t_def)
  finally have xt: "\<bar>x - t\<bar> \<le> t / 2 ^ 53" .
  have fx: "\<bar>fl64 x - x\<bar> \<le> x / 2 ^ 53" by (rule fl64_abs_error[OF x0])
  have "x \<le> t + t / 2 ^ 53" using xt by linarith
  then have "x / 2 ^ 53 \<le> (t + t / 2 ^ 53) / 2 ^ 53" by (intro divide_right_mono) simp_all
  also have "\<dots> \<le> (t + t) / 2 ^ 53" using t0 by (intro divide_right_mono add_left_mono) (simp_all add: field_simps)
  finally have "x / 2 ^ 53 \<le> (t + t) / 2 ^ 53" .
  then have "\<bar>fl64 x - t\<bar> \<le> (t + t) / 2 ^ 53 + t / 2 ^ 53" using fx xt by linarith
  also have "\<dots> \<le> t / 2 ^ 51" using t0 by (simp add: field_simps)
  finally show ?thesis by (simp only: t_def x_def)
qed

section \<open>Frame indices: helper lemmas\<close>

text \<open>
  Below \<open>2\<^sup>5\<^sup>3\<close> all the integers involved are doubles, and the points of
  \<^verbatim>\<open>np.linspace\<close> are \<open>fl64 (i * step)\<close> with \<open>step = fl64 ((D - 1) / (N - 1))\<close>, the last
  one replaced by \<open>D - 1\<close>.
\<close>

lemma np_linspace_points_one: "np_linspace_points s 1 = Inr [0]"
  by (simp add: np_linspace_points_def fl64_zero)

lemma np_linspace_points_many:
  assumes "2 \<le> n" "n < 2 ^ 60"
  shows "np_linspace_points s n =
    Inr ((map (\<lambda>i. fl64 (fl64 (of_nat i) * fl64 (fl64 (of_int s) / fl64 (of_int (n - 1)))))
            [0..<nat n])[nat n - 1 := fl64 (of_int s)])"
proof -
  let ?step = "fl64 (fl64 (of_int s) / fl64 (of_int (n - 1)))"
  have dpos: "fl64 (of_int (n - 1)) \<noteq> 0" using assms by (simp add: fl64_eq_0_iff)
  have zero: "?step = 0 \<Longrightarrow> fl64 (fl64 (v / fl64 (of_int (n - 1))) * fl64 (of_int s)) = fl64 (v * ?step)" for v
  proof -
    assume z: "?step = 0"
    then have "fl64 (of_int s) / fl64 (of_int (n - 1)) = 0" by (simp only: fl64_eq_0_iff)
    then have "fl64 (of_int s) = 0" using dpos by simp
    then show ?thesis using z by simp
  qed
  show ?thesis
    using assms zero by (simp add: np_linspace_points_def Let_def comp_def)
qed

lemma np_linspace_points_bounded:
  assumes d: "1 \<le> d" "d \<le> 2 ^ 53" and n: "2 \<le> n" "n \<le> 2 ^ 53"
  shows "np_linspace_points (d - 1) n =
      Inr ((map (\<lambda>i. fl64 (of_nat i * fl64 (of_int (d - 1) / of_int (n - 1)))) [0..<nat n])
             [nat n - 1 := of_int (d - 1)])"
proof -
  have n60: "n < 2 ^ 60" using n(2) by simp
  have s: "fl64 (of_int (d - 1)) = of_int (d - 1)" using d by (intro fl64_of_int) simp_all
  have b: "fl64 (of_int (n - 1)) = of_int (n - 1)" using n by (intro fl64_of_int) simp_all
  have i: "fl64 (of_nat i) = of_nat i" if "i \<in> set [0..<nat n]" for i
  proof -
    have "int i \<le> 2 ^ 53" using that n by simp
    then have "i \<le> 2 ^ 53" by (metis of_nat_le_iff of_nat_numeral of_nat_power)
    then show ?thesis by (rule fl64_of_nat)
  qed
  have m: "map (\<lambda>i. fl64 (fl64 (of_nat i) * fl64 (fl64 (of_int (d - 1)) / fl64 (of_int (n - 1))))) [0..<nat n]
      = map (\<lambda>i. fl64 (of_nat i * fl64 (of_int (d - 1) / of_int (n - 1)))) [0..<nat n]"
    by (rule map_cong) (simp_all only: s b i)
  have "np_linspace_points (d - 1) n =
      Inr ((map (\<lambda>i. fl64 (of_nat i * fl64 (of_int (d - 1) / of_int (n - 1)))) [0..<nat n])
             [nat n - 1 := fl64 (of_int (d - 1))])"
    by (simp only: np_linspace_points_many[OF n(1) n60] m)
  then show ?thesis by (simp only: s)
qed

lemma frame_id_list_floor:
  "np_linspace_points (d - 1) n = Inr pts \<Longrightarrow> frame_id_list d n = Inr (map floor pts)"
  by (simp add: frame_id_list_def)

lemma frame_id_list_one: "frame_id_list d 1 = Inr [0]"
  by (simp add: frame_id_list_def np_linspace_points_one)

lemma frame_id_list_many:
  assumes d: "1 \<le> d" "d \<le> 2 ^ 53" and n: "2 \<le> n" "n \<le> 2 ^ 53"
  shows "frame_id_list d n =
    Inr ((map (\<lambda>i. \<lfloor>fl64 (of_nat i * fl64 (of_int (d - 1) / of_int (n - 1)))\<rfloor>)
            [0..<nat n])[nat n - 1 := d - 1])"
  unfolding frame_id_list_def np_linspace_points_bounded[OF assms]
  by (simp add: map_update comp_def)

lemma step_nonneg:
  assumes "1 \<le> d" "2 \<le> n"
  shows "0 \<le> fl64 (of_int (d - 1) / of_int (n - 1))"
  using assms by (intro fl64_nonneg divide_nonneg_nonneg) simp_all

lemma step_ge_one:
  assumes "2 \<le> n" "n \<le> d"
  shows "1 \<le> fl64 (of_int (d - 1) / of_int (n - 1))"
proof -
  have "(1::rat) \<le> of_int (d - 1) / of_int (n - 1)" using assms by (simp add: le_divide_eq)
  then have "fl64 1 \<le> fl64 (of_int (d - 1) / of_int (n - 1))" by (rule fl64_mono)
  then show ?thesis by (simp only: fl64_one)
qed

lemma points_below_stop:
  assumes "1 \<le> d" "2 \<le> n" "n \<le> 2 ^ 53"
  shows "of_int (n - 2) * fl64 (of_int (d - 1) / of_int (n - 1)) \<le> of_int (d - 1)"
proof -
  define a :: rat where "a = of_int (d - 1)"
  define b :: rat where "b = of_int (n - 1)"
  define q where "q = a / b"
  have a0: "0 \<le> a" using assms by (simp add: a_def)
  have b1: "1 \<le> b" using assms by (simp add: b_def)
  have "(of_int (n - 2) :: rat) \<le> of_int (2 ^ 53)" using assms(3) by (subst of_int_le_iff) simp
  then have bu: "b - 1 \<le> 2 ^ 53" by (simp add: b_def)
  have q0: "0 \<le> q" using a0 b1 by (simp add: q_def)
  have qb: "q * b = a" using b1 by (simp add: q_def)
  have "(b - 1) * fl64 q \<le> (b - 1) * (q + q / 2 ^ 53)"
    using b1 fl64_upper[OF q0] by (intro mult_left_mono) simp_all
  also have "\<dots> = q * ((b - 1) * (1 + 1 / 2 ^ 53))" by (simp add: algebra_simps)
  also have "\<dots> \<le> q * b"
  proof (rule mult_left_mono[OF _ q0])
    show "(b - 1) * (1 + 1 / 2 ^ 53) \<le> b" using bu by (simp add: algebra_simps)
  qed
  also have "\<dots> = a" by (rule qb)
  finally have "(b - 1) * fl64 q \<le> a" .
  moreover have "b - 1 = of_int (n - 2)" by (simp add: b_def)
  ultimately show ?thesis by (simp add: q_def a_def b_def)
qed

lemma points_well_below_stop:
  assumes "2 \<le> n" "n \<le> d" "d \<le> 2 ^ 52"
  shows "of_int (n - 2) * fl64 (of_int (d - 1) / of_int (n - 1)) \<le> of_int (d - 2) + 1/2"
proof -
  define a :: rat where "a = of_int (d - 1)"
  define b :: rat where "b = of_int (n - 1)"
  define q where "q = a / b"
  have b1: "1 \<le> b" using assms by (simp add: b_def)
  have ab: "b \<le> a" using assms by (simp add: a_def b_def)
  have "(of_int (d - 2) :: rat) \<le> of_int (2 ^ 52)" using assms(3) by (subst of_int_le_iff) simp
  then have au: "a - 1 \<le> 2 ^ 52" by (simp add: a_def)
  have q1: "1 \<le> q" using ab b1 by (simp add: q_def le_divide_eq)
  have q0: "0 \<le> q" using q1 by simp
  have qb: "q * b = a" using b1 by (simp add: q_def)
  have "(b - 1) * fl64 q \<le> (b - 1) * (q + q / 2 ^ 53)"
    using b1 fl64_upper[OF q0] by (intro mult_left_mono) simp_all
  also have "\<dots> = (q * b - q) * (1 + 1 / 2 ^ 53)" by (simp add: algebra_simps)
  also have "\<dots> = (a - q) * (1 + 1 / 2 ^ 53)" by (simp only: qb)
  also have "\<dots> \<le> (a - 1) * (1 + 1 / 2 ^ 53)"
    using q1 by (intro mult_right_mono) simp_all
  also have "\<dots> \<le> a - 1 + 1/2"
  proof -
    have "(a - 1) * (1 + 1 / 2 ^ 53) = (a - 1) + (a - 1) * (1 / 2 ^ 53)"
      by (simp only: distrib_left mult_1_right)
    moreover have "(a - 1) * (1 / 2 ^ 53) \<le> 2 ^ 52 * (1 / 2 ^ 53)"
      using au by (intro mult_right_mono) simp_all
    moreover have "(2::rat) ^ 52 * (1 / 2 ^ 53) = 1 / 2" by simp
    ultimately show ?thesis by linarith
  qed
  finally have "(b - 1) * fl64 q \<le> a - 1 + 1/2" .
  moreover have "b - 1 = of_int (n - 2)" by (simp add: b_def)
  moreover have "a - 1 = of_int (d - 2)" by (simp add: a_def)
  ultimately show ?thesis by (simp add: q_def a_def b_def)
qed

lemma point_floor_mono:
  assumes "0 \<le> s" "i \<le> j"
  shows "\<lfloor>fl64 (of_nat i * s)\<rfloor> \<le> \<lfloor>fl64 (of_nat j * s)\<rfloor>"
proof -
  have "(of_nat i :: rat) \<le> of_nat j" using assms(2) by simp
  then have "of_nat i * s \<le> of_nat j * s" using assms(1) by (rule mult_right_mono)
  then show ?thesis by (intro floor_mono fl64_mono)
qed

lemma point_floor_le_stop:
  assumes "1 \<le> d" "d \<le> 2 ^ 53" "2 \<le> n" "n \<le> 2 ^ 53" "int i \<le> n - 2"
  shows "\<lfloor>fl64 (of_nat i * fl64 (of_int (d - 1) / of_int (n - 1)))\<rfloor> \<le> d - 1"
proof -
  let ?s = "fl64 (of_int (d - 1) / of_int (n - 1))"
  have s0: "0 \<le> ?s" using assms by (intro step_nonneg)
  have "(of_int (int i) :: rat) \<le> of_int (n - 2)" using assms(5) by (subst of_int_le_iff)
  then have "(of_nat i :: rat) \<le> of_int (n - 2)" by simp
  then have "of_nat i * ?s \<le> of_int (n - 2) * ?s" using s0 by (rule mult_right_mono)
  also have "\<dots> \<le> of_int (d - 1)" using assms by (intro points_below_stop)
  finally have "fl64 (of_nat i * ?s) \<le> fl64 (of_int (d - 1))" by (rule fl64_mono)
  also have "\<dots> = of_int (d - 1)" using assms by (intro fl64_of_int) simp_all
  finally show ?thesis by (simp only: floor_le_iff)
qed

lemma point_floor_lt_stop:
  assumes "2 \<le> n" "n \<le> d" "d \<le> 2 ^ 52" "int i \<le> n - 2"
  shows "\<lfloor>fl64 (of_nat i * fl64 (of_int (d - 1) / of_int (n - 1)))\<rfloor> \<le> d - 2"
proof -
  let ?s = "fl64 (of_int (d - 1) / of_int (n - 1))"
  have s0: "0 \<le> ?s" using assms by (intro step_nonneg) simp_all
  have "(of_int (int i) :: rat) \<le> of_int (n - 2)" using assms(4) by (subst of_int_le_iff)
  then have "(of_nat i :: rat) \<le> of_int (n - 2)" by simp
  then have "of_nat i * ?s \<le> of_int (n - 2) * ?s" using s0 by (rule mult_right_mono)
  also have "\<dots> \<le> of_int (d - 2) + 1/2" using assms by (intro points_well_below_stop)
  finally have "fl64 (of_nat i * ?s) \<le> fl64 (of_int (d - 2) + 1/2)" by (rule fl64_mono)
  also have "\<dots> = of_int (d - 2) + 1/2" using assms by (intro fl64_half_int) simp_all
  finally have "fl64 (of_nat i * ?s) < of_int (d - 2) + 1" by simp
  then have "\<lfloor>fl64 (of_nat i * ?s)\<rfloor> < d - 2 + 1" by (simp only: floor_less_iff)
  then show ?thesis by simp
qed

lemma point_floor_step:
  assumes "2 \<le> n" "n \<le> d" "d \<le> 2 ^ 52" "int (Suc i) \<le> n - 2"
  shows "\<lfloor>fl64 (of_nat i * fl64 (of_int (d - 1) / of_int (n - 1)))\<rfloor>
       < \<lfloor>fl64 (of_nat (Suc i) * fl64 (of_int (d - 1) / of_int (n - 1)))\<rfloor>"
proof -
  let ?s = "fl64 (of_int (d - 1) / of_int (n - 1))"
  let ?x = "of_nat i * ?s"
  have s1: "1 \<le> ?s" using assms by (intro step_ge_one)
  have x0: "0 \<le> ?x" using s1 by simp
  have next_ge: "?x + 1 \<le> of_nat (Suc i) * ?s" using s1 by (simp add: algebra_simps)
  have "(of_int (int (Suc i)) :: rat) \<le> of_int (n - 2)" using assms(4) by (subst of_int_le_iff)
  then have "(of_nat (Suc i) :: rat) \<le> of_int (n - 2)" by (simp only: of_int_of_nat_eq)
  then have "of_nat (Suc i) * ?s \<le> of_int (n - 2) * ?s" using s1 by (intro mult_right_mono) simp_all
  also have "\<dots> \<le> of_int (d - 2) + 1/2" using assms by (intro points_well_below_stop)
  also have "\<dots> < of_int (2 ^ 52)"
  proof -
    have "d - 2 + 1 \<le> 2 ^ 52" using assms by simp
    then have "(of_int (d - 2 + 1) :: rat) \<le> of_int (2 ^ 52)" by (simp only: of_int_le_iff)
    then show ?thesis by simp
  qed
  finally have "?x + 1 < 2 ^ 52" using next_ge by simp
  then have "\<lfloor>fl64 ?x\<rfloor> + 1 \<le> \<lfloor>fl64 (?x + 1)\<rfloor>" using x0 by (intro fl64_floor_step)
  also have "\<dots> \<le> \<lfloor>fl64 (of_nat (Suc i) * ?s)\<rfloor>" using next_ge by (intro floor_mono fl64_mono)
  finally show ?thesis by simp
qed

lemma point_floor_strict:
  assumes "2 \<le> n" "n \<le> d" "d \<le> 2 ^ 52" "i < j" "int j \<le> n - 2"
  shows "\<lfloor>fl64 (of_nat i * fl64 (of_int (d - 1) / of_int (n - 1)))\<rfloor>
       < \<lfloor>fl64 (of_nat j * fl64 (of_int (d - 1) / of_int (n - 1)))\<rfloor>"
  using assms(4,5)
proof (induction j)
  case 0
  then show ?case by simp
next
  case (Suc j)
  have st: "\<lfloor>fl64 (of_nat j * fl64 (of_int (d - 1) / of_int (n - 1)))\<rfloor>
       < \<lfloor>fl64 (of_nat (Suc j) * fl64 (of_int (d - 1) / of_int (n - 1)))\<rfloor>"
    using assms(1-3) Suc.prems(2) by (rule point_floor_step)
  show ?case
  proof (cases "i = j")
    case True
    then show ?thesis using st by simp
  next
    case False
    then have "i < j" using Suc.prems(1) by simp
    moreover have "int j \<le> n - 2" using Suc.prems(2) by simp
    ultimately show ?thesis using Suc.IH st by linarith
  qed
qed

lemma frame_ids_nth:
  assumes "1 \<le> d" "d \<le> 2 ^ 53" "2 \<le> n" "n \<le> 2 ^ 53" "frame_id_list d n = Inr ids"
  shows "length ids = nat n"
    and "i < nat n - 1 \<Longrightarrow>
           ids ! i = \<lfloor>fl64 (of_nat i * fl64 (of_int (d - 1) / of_int (n - 1)))\<rfloor>"
    and "ids ! (nat n - 1) = d - 1"
proof -
  let ?f = "\<lambda>i. \<lfloor>fl64 (of_nat i * fl64 (of_int (d - 1) / of_int (n - 1)))\<rfloor>"
  have ids: "ids = (map ?f [0..<nat n])[nat n - 1 := d - 1]"
    using frame_id_list_many[OF assms(1-4)] assms(5) by simp
  show "length ids = nat n" unfolding ids by simp
  show "ids ! (nat n - 1) = d - 1" unfolding ids using assms(3) by simp
  show "ids ! i = ?f i" if "i < nat n - 1"
  proof -
    have "i < nat n" "i \<noteq> nat n - 1" using that by simp_all
    then show ?thesis unfolding ids by simp
  qed
qed

lemma frame_ids_sorted:
  assumes "1 \<le> d" "d \<le> 2 ^ 53" "2 \<le> n" "n \<le> 2 ^ 53" "frame_id_list d n = Inr ids"
  shows "length ids = nat n" "ids ! 0 = 0" "ids ! (nat n - 1) = d - 1" "sorted ids"
proof -
  let ?s = "fl64 (of_int (d - 1) / of_int (n - 1))"
  note f = frame_ids_nth[OF assms]
  show "length ids = nat n" by (rule f(1))
  show "ids ! (nat n - 1) = d - 1" by (rule f(3))
  have "ids ! 0 = \<lfloor>fl64 (of_nat 0 * ?s)\<rfloor>" using assms(3) by (intro f(2)) simp
  then show "ids ! 0 = 0" by (simp add: fl64_zero)
  have s0: "0 \<le> ?s" using assms by (intro step_nonneg)
  show "sorted ids"
    unfolding sorted_iff_nth_mono
  proof (intro allI impI)
    fix i j assume ij: "i \<le> j" "j < length ids"
    show "ids ! i \<le> ids ! j"
    proof (cases "j = nat n - 1")
      case True
      show ?thesis
      proof (cases "i = j")
        case True then show ?thesis by simp
      next
        case False
        then have il: "i < nat n - 1" using ij True by simp
        then have "int i \<le> n - 2" by simp
        then have "\<lfloor>fl64 (of_nat i * ?s)\<rfloor> \<le> d - 1"
          using assms(1-4) by (intro point_floor_le_stop)
        then show ?thesis using f(2)[OF il] f(3) True by simp
      qed
    next
      case False
      then have jl: "j < nat n - 1" using ij f(1) by simp
      then have il: "i < nat n - 1" using ij by simp
      show ?thesis using point_floor_mono[OF s0 ij(1)] f(2)[OF il] f(2)[OF jl] by simp
    qed
  qed
qed

lemma frame_ids_strict:
  assumes "2 \<le> n" "n \<le> d" "d \<le> 2 ^ 52" "frame_id_list d n = Inr ids"
  shows "sorted_wrt (<) ids"
proof -
  let ?s = "fl64 (of_int (d - 1) / of_int (n - 1))"
  have b: "1 \<le> d" "d \<le> 2 ^ 53" "n \<le> 2 ^ 53" using assms by simp_all
  note f = frame_ids_nth[OF b(1,2) assms(1) b(3) assms(4)]
  show ?thesis
    unfolding sorted_wrt_iff_nth_less
  proof (intro allI impI)
    fix i j assume ij: "i < j" "j < length ids"
    show "ids ! i < ids ! j"
    proof (cases "j = nat n - 1")
      case True
      have il: "i < nat n - 1" using ij True by simp
      then have "int i \<le> n - 2" by simp
      then have "\<lfloor>fl64 (of_nat i * ?s)\<rfloor> \<le> d - 2"
        using assms(1-3) by (intro point_floor_lt_stop)
      then show ?thesis using f(2)[OF il] f(3) True by simp
    next
      case False
      then have jl: "j < nat n - 1" using ij f(1) by simp
      then have il: "i < nat n - 1" using ij by simp
      have "int j \<le> n - 2" using jl by simp
      then have "\<lfloor>fl64 (of_nat i * ?s)\<rfloor> < \<lfloor>fl64 (of_nat j * ?s)\<rfloor>"
        using assms(1-3) ij(1) by (intro point_floor_strict)
      then show ?thesis using f(2)[OF il] f(2)[OF jl] by simp
    qed
  qed
qed

lemma frame_ids_range:
  assumes "1 \<le> d" "d \<le> 2 ^ 53" "2 \<le> n" "n \<le> 2 ^ 53" "frame_id_list d n = Inr ids"
  shows "set ids \<subseteq> {0..d - 1}"
proof
  fix x assume "x \<in> set ids"
  then obtain i where i: "i < length ids" "ids ! i = x" by (auto simp: in_set_conv_nth)
  note p = frame_ids_sorted[OF assms]
  have "ids ! 0 \<le> ids ! i" using p(4) i(1) by (simp add: sorted_iff_nth_mono)
  moreover have "ids ! i \<le> ids ! (nat n - 1)"
    using p(4) i(1) p(1) by (intro sorted_nth_mono) simp_all
  ultimately show "x \<in> {0..d - 1}" using p(2,3) i(2) by simp
qed

lemma frame_ids_repeat:
  assumes "1 \<le> d" "d \<le> 2 ^ 53" "2 \<le> n" "n \<le> 2 ^ 53" "d < n" "frame_id_list d n = Inr ids"
  shows "\<not> distinct ids"
proof
  assume "distinct ids"
  then have "card (set ids) = length ids" by (rule distinct_card)
  moreover have "card (set ids) \<le> card {0..d - 1}"
    using frame_ids_range[OF assms(1-4,6)] by (intro card_mono) simp_all
  moreover have "length ids = nat n" using frame_ids_sorted(1)[OF assms(1-4,6)] .
  ultimately show False using assms(1,5) by simp
qed

lemma point_error:
  assumes "1 \<le> d" "2 \<le> n"
  shows "\<bar>fl64 (of_nat i * fl64 (of_int (d - 1) / of_int (n - 1))) - spec_linear_point d n i\<bar>
         \<le> spec_linear_point d n i / 2 ^ 51"
proof -
  have "(0::rat) \<le> of_int (d - 1) / of_int (n - 1)" using assms by simp
  then show ?thesis
    using fl64_scaled_error[of "of_nat i" "of_int (d - 1) / of_int (n - 1)"]
    by (simp add: spec_linear_point_def)
qed

lemma frame_ids_spacing:
  assumes "1 \<le> d" "d \<le> 2 ^ 53" "2 \<le> n" "n \<le> 2 ^ 53" "frame_id_list d n = Inr ids"
    "i < nat n"
  shows "\<exists>p. ids ! i = \<lfloor>p\<rfloor>
           \<and> \<bar>p - spec_linear_point d n i\<bar> \<le> spec_linear_point d n i / 2 ^ 51"
proof (cases "i = nat n - 1")
  case True
  have "of_nat (nat n - 1) = (of_int (n - 1) :: rat)" using assms(3) by (simp add: of_nat_diff)
  then have x: "spec_linear_point d n i = of_int (d - 1)" using True assms(3)
    by (simp add: spec_linear_point_def)
  have "ids ! i = \<lfloor>of_int (d - 1) :: rat\<rfloor>"
    using frame_ids_nth(3)[OF assms(1-5)] True by simp
  moreover have "\<bar>of_int (d - 1) - spec_linear_point d n i\<bar> \<le> spec_linear_point d n i / 2 ^ 51"
    using assms(1) by (simp add: x)
  ultimately show ?thesis by blast
next
  case False
  then have "i < nat n - 1" using assms(6) by simp
  then have "ids ! i = \<lfloor>fl64 (of_nat i * fl64 (of_int (d - 1) / of_int (n - 1)))\<rfloor>"
    by (rule frame_ids_nth(2)[OF assms(1-5)])
  then show ?thesis using point_error[OF assms(1,3), of i] by blast
qed

lemma frame_ids_exact:
  assumes "1 \<le> d" "d \<le> 2 ^ 53" "2 \<le> n" "n \<le> 2 ^ 53" "frame_id_list d n = Inr ids"
    "(n - 1) dvd (d - 1)"
  shows "ids = map (\<lambda>i. int i * ((d - 1) div (n - 1))) [0..<nat n]"
proof (rule nth_equalityI)
  define k where "k = (d - 1) div (n - 1)"
  have dk: "d - 1 = (n - 1) * k" using assms(6) by (simp add: k_def)
  have k0: "0 \<le> k" using assms(1,3) by (simp add: k_def pos_imp_zdiv_nonneg_iff)
  have "1 * k \<le> (n - 1) * k" using assms(3) k0 by (intro mult_right_mono) simp_all
  then have kd: "k \<le> d - 1" using dk by simp
  have kle: "k \<le> 2 ^ 53" using kd assms(2) by linarith
  have "(of_int (d - 1) / of_int (n - 1) :: rat) = of_int ((n - 1) * k) / of_int (n - 1)"
    by (simp only: dk)
  also have "\<dots> = of_int k" using assms(3) by simp
  finally have q: "(of_int (d - 1) / of_int (n - 1) :: rat) = of_int k" .
  have s: "fl64 (of_int (d - 1) / of_int (n - 1)) = of_int k"
    by (simp only: q fl64_of_int[OF k0 kle])
  note f = frame_ids_nth[OF assms(1-5)]
  show "length ids = length (map (\<lambda>i. int i * ((d - 1) div (n - 1))) [0..<nat n])"
    using f(1) by simp
  fix i assume "i < length ids"
  then have i: "i < nat n" using f(1) by simp
  have "ids ! i = int i * k"
  proof (cases "i = nat n - 1")
    case True
    then have "int i = n - 1" using assms(3) by simp
    then show ?thesis using f(3) True dk by simp
  next
    case False
    then have il: "i < nat n - 1" using i by simp
    have i1: "int i \<le> n - 1" using il by simp
    have "int i * k \<le> (n - 1) * k" using i1 k0 by (intro mult_right_mono)
    then have u: "int i * k \<le> 2 ^ 53" using dk assms(2) by linarith
    have l: "0 \<le> int i * k" using k0 by simp
    have "(of_nat i :: rat) * of_int k = of_int (int i * k)" by simp
    then have "fl64 (of_nat i * fl64 (of_int (d - 1) / of_int (n - 1))) = of_int (int i * k)"
      by (simp only: s fl64_of_int[OF l u])
    then have "\<lfloor>fl64 (of_nat i * fl64 (of_int (d - 1) / of_int (n - 1)))\<rfloor> = int i * k"
      by (simp only: floor_of_int)
    then show ?thesis using f(2)[OF il] by simp
  qed
  then show "ids ! i = map (\<lambda>i. int i * ((d - 1) div (n - 1))) [0..<nat n] ! i"
    using i by (simp add: k_def)
qed

section \<open>The transform pipeline: helper lemmas\<close>

lemma short_side_scale_size_pos:
  assumes "1 \<le> h" "1 \<le> w"
  shows "short_side_scale_size h w sz =
    Inr (if w < h
         then (\<lfloor>fl64 (fl64 (fl64 (of_nat h) / fl64 (of_nat w)) * fl64 (of_int sz))\<rfloor>, sz)
         else (sz, \<lfloor>fl64 (fl64 (fl64 (of_nat w) / fl64 (of_nat h)) * fl64 (of_int sz))\<rfloor>))"
  using assms by (simp add: short_side_scale_size_def float_truediv_def)

lemma short_side_scale_size_zero:
  assumes "h = 0 \<or> w = 0"
  shows "short_side_scale_size h w sz = Inl (ZeroDivisionError ''float division by zero'')"
  using assms by (auto simp add: short_side_scale_size_def float_truediv_def)

lemma long_side_ge:
  assumes "1 \<le> a" "a \<le> b" "0 \<le> sz" "sz \<le> 2 ^ 53"
  shows "sz \<le> \<lfloor>fl64 (fl64 (fl64 (of_nat b) / fl64 (of_nat a)) * fl64 (of_int sz))\<rfloor>"
proof -
  have apos: "0 < fl64 (of_nat a)" using assms(1) by (intro fl64_pos_pos) simp
  have "fl64 (of_nat a) \<le> fl64 (of_nat b)" using assms(2) by (intro fl64_mono) simp
  then have "1 \<le> fl64 (of_nat b) / fl64 (of_nat a)" using apos by (simp add: le_divide_eq)
  then have "fl64 1 \<le> fl64 (fl64 (of_nat b) / fl64 (of_nat a))" by (rule fl64_mono)
  then have q1: "1 \<le> fl64 (fl64 (of_nat b) / fl64 (of_nat a))" by (simp only: fl64_one)
  have s: "fl64 (of_int sz) = of_int sz" using assms(3,4) by (rule fl64_of_int)
  have "(of_int sz :: rat) = 1 * of_int sz" by simp
  also have "\<dots> \<le> fl64 (fl64 (of_nat b) / fl64 (of_nat a)) * of_int sz"
    using q1 assms(3) by (intro mult_right_mono) simp_all
  finally have "fl64 (of_int sz) \<le> fl64 (fl64 (fl64 (of_nat b) / fl64 (of_nat a)) * of_int sz)"
    by (rule fl64_mono)
  then have "of_int sz \<le> fl64 (fl64 (fl64 (of_nat b) / fl64 (of_nat a)) * fl64 (of_int sz))"
    by (simp only: s)
  then show ?thesis by (simp only: le_floor_iff)
qed

lemma short_side_scale_size_ge:
  assumes "short_side_scale_size h w sz = Inr (nh, nw)" "0 \<le> sz" "sz \<le> 2 ^ 53"
  shows "sz \<le> nh" "sz \<le> nw" "min nh nw = sz" "1 \<le> h" "1 \<le> w"
proof -
  have hw: "1 \<le> h \<and> 1 \<le> w"
  proof (rule ccontr)
    assume "\<not> (1 \<le> h \<and> 1 \<le> w)"
    then have "h = 0 \<or> w = 0" by auto
    then show False using short_side_scale_size_zero[of h w sz] assms(1) by simp
  qed
  then show "1 \<le> h" "1 \<le> w" by simp_all
  note eq = short_side_scale_size_pos[of h w sz] hw assms(1)
  show a: "sz \<le> nh"
  proof (cases "w < h")
    case True
    then have "w \<le> h" by simp
    with hw have "sz \<le> \<lfloor>fl64 (fl64 (fl64 (of_nat h) / fl64 (of_nat w)) * fl64 (of_int sz))\<rfloor>"
      using assms(2,3) by (intro long_side_ge) simp_all
    then show ?thesis using eq True by simp
  next
    case False then show ?thesis using eq by simp
  qed
  show b: "sz \<le> nw"
  proof (cases "w < h")
    case True then show ?thesis using eq by simp
  next
    case False
    then have "h \<le> w" by simp
    with hw have "sz \<le> \<lfloor>fl64 (fl64 (fl64 (of_nat w) / fl64 (of_nat h)) * fl64 (of_int sz))\<rfloor>"
      using assms(2,3) by (intro long_side_ge) simp_all
    then show ?thesis using eq False by simp
  qed
  show "min nh nw = sz" using a b eq by (cases "w < h") simp_all
qed

lemma crop_offset_le:
  "rne (fl64 (of_nat k / 2)) \<le> int k"
proof -
  consider "k = 0" | "k = 1" | "2 \<le> k" by linarith
  then show ?thesis
  proof cases
    case 1 then show ?thesis by (simp add: fl64_zero rne_def)
  next
    case 2
    have "fl64 (of_int 0 + 1/2) = of_int 0 + 1/2" by (rule fl64_half_int) simp_all
    then have half: "fl64 (1/2) = 1/2" by simp
    have "\<lfloor>1/2 :: rat\<rfloor> = 0" by (rule floor_unique) simp_all
    then have "rne (1/2) = 0" by (simp add: rne_def)
    then show ?thesis using 2 by (simp add: half)
  next
    case 3
    define z where "z = fl64 (of_nat k / 2)"
    have k2: "(2::rat) \<le> of_nat k" using 3 by simp
    have "z \<le> of_nat k / 2 + (of_nat k / 2) / 2 ^ 53" unfolding z_def by (rule fl64_upper) simp
    moreover have "of_int (rne z) \<le> z + 1/2" using rne_error[of z] by linarith
    moreover have "(of_nat k / 2) / 2 ^ 53 \<le> (of_nat k / 2 :: rat) / 2" by (intro divide_left_mono) simp_all
    ultimately have "(of_int (rne z) :: rat) \<le> of_nat k" using k2 by linarith
    then have "(of_int (rne z) :: rat) \<le> of_int (int k)" by simp
    then show ?thesis unfolding z_def by (simp only: of_int_le_iff)
  qed
qed

lemma crop_slice_len:
  assumes "crop \<le> h"
  shows "slice_len h (nat (rne (fl64 (of_nat (h - crop) / 2)))) crop = crop"
proof -
  have "rne (fl64 (of_nat (h - crop) / 2)) \<le> int (h - crop)" by (rule crop_offset_le)
  then have "nat (rne (fl64 (of_nat (h - crop) / 2))) \<le> h - crop" by simp
  then show ?thesis using assms by (simp add: slice_len_def)
qed

lemma Compose_pipeline:
  "Compose [Lambda_div255, NormalizeVideo m s, ShortSideScale sz, CenterCropVideo cr,
            RandomHorizontalFlipVideo p] x wd =
    (case normalize_video m s (lambda_div255 x) of
       Inl e \<Rightarrow> (Inl e, wd)
     | Inr x1 \<Rightarrow>
        (case ShortSideScale_forward sz x1 of
           Inl e \<Rightarrow> (Inl e, wd)
         | Inr x2 \<Rightarrow>
            (case center_crop_video cr x2 of
               Inl e \<Rightarrow> (Inl e, wd)
             | Inr x3 \<Rightarrow> (Inr (if rng wd 0 < p then hflip x3 else x3),
                           wd\<lparr>rng := (\<lambda>n. rng wd (Suc n))\<rparr>))))"
  by (simp add: random_random_def split: sum.splits)

lemma lambda_div255_shape: "shape (lambda_div255 x) = shape x" "dtype (lambda_div255 x) = Float32"
  by (simp_all add: lambda_div255_def)

lemma normalize_video_Inr:
  assumes "normalize_video m s x = Inr y"
  shows "shape y = shape x" "dtype y = dtype x"
    "\<exists>t h w. shape x = [length m, t, h, w]"
  using assms by (auto simp: normalize_video_def split: list.splits if_splits)

lemma normalize_video_ok:
  assumes "shape x = [c, t, h, w]" "c = length m" "c = length s"
  shows "\<exists>y. normalize_video m s x = Inr y"
  using assms by (simp add: normalize_video_def)

lemma normalize_video_not_ValueError:
  assumes "shape x = [c, t, h, w]"
  shows "\<not> is_ValueError (normalize_video m s x)"
  using assms by (simp add: normalize_video_def)

lemma interpolate_Inr:
  assumes "interpolate x nh nw = Inr y"
  shows "\<exists>c t h w. shape x = [c, t, h, w] \<and> shape y = [c, t, nat nh, nat nw]" "dtype y = dtype x"
  using assms by (auto simp: interpolate_def split: list.splits if_splits)

lemma interpolate_ok:
  assumes "shape x = [c, t, h, w]" "1 \<le> t" "1 \<le> h" "1 \<le> w" "1 \<le> nh" "1 \<le> nw"
  shows "\<exists>y. interpolate x nh nw = Inr y"
  using assms by (simp add: interpolate_def)

lemma interpolate_not_ValueError: "\<not> is_ValueError (interpolate x nh nw)"
  by (simp add: interpolate_def split: list.splits)

lemma ShortSideScale_forward_Inr:
  assumes "ShortSideScale_forward sz x = Inr y"
  shows "\<exists>c t h w nh nw. shape x = [c, t, h, w] \<and> short_side_scale_size h w sz = Inr (nh, nw)
           \<and> shape y = [c, t, nat nh, nat nw]"
  using assms interpolate_Inr(1)
  by (fastforce simp: ShortSideScale_forward_def split: list.splits torch_dtype.splits sum.splits)

lemma ShortSideScale_forward_ok:
  assumes "shape x = [c, t, h, w]" "dtype x = Float32" "1 \<le> t" "1 \<le> h" "1 \<le> w"
    "1 \<le> sz" "sz \<le> 2 ^ 53"
  shows "\<exists>y nh nw. ShortSideScale_forward sz x = Inr y
           \<and> short_side_scale_size h w sz = Inr (nh, nw) \<and> shape y = [c, t, nat nh, nat nw]"
proof -
  obtain nh nw where sz: "short_side_scale_size h w sz = Inr (nh, nw)"
    using short_side_scale_size_pos[OF assms(4,5), of sz] by (cases "w < h") simp_all
  have "sz \<le> nh" "sz \<le> nw" using short_side_scale_size_ge(1,2)[OF sz] assms(6,7) by simp_all
  then have "1 \<le> nh" "1 \<le> nw" using assms(6) by simp_all
  then obtain y where y: "interpolate x nh nw = Inr y"
    using interpolate_ok[OF assms(1,3,4,5)] by blast
  have "ShortSideScale_forward sz x = Inr y"
    using assms(1,2) sz y by (simp add: ShortSideScale_forward_def)
  moreover have "shape y = [c, t, nat nh, nat nw]" using interpolate_Inr(1)[OF y] assms(1) by simp
  ultimately show ?thesis using sz by blast
qed

lemma short_side_scale_size_not_ValueError:
  "short_side_scale_size h w sz = Inl e \<Longrightarrow> \<not> is_ValueError (Inl e :: error + 'a)"
  by (auto simp: short_side_scale_size_def float_truediv_def split: if_splits)

lemma ShortSideScale_forward_not_ValueError: "\<not> is_ValueError (ShortSideScale_forward sz x)"
proof (cases "shape x")
  case Nil
  then show ?thesis by (simp add: ShortSideScale_forward_def)
next
  case (Cons c r)
  show ?thesis
  proof (cases "\<exists>t h w. r = [t, h, w]")
    case False
    then show ?thesis using Cons
      by (auto simp: ShortSideScale_forward_def split: list.splits)
  next
    case True
    then obtain t h w where r: "r = [t, h, w]" by blast
    show ?thesis
    proof (cases "dtype x")
      case UInt8
      then show ?thesis using Cons r by (simp add: ShortSideScale_forward_def)
    next
      case Float32
      show ?thesis
      proof (cases "short_side_scale_size h w sz")
        case (Inl e)
        then show ?thesis
          using Cons r Float32 short_side_scale_size_not_ValueError[OF Inl]
          by (simp add: ShortSideScale_forward_def)
      next
        case (Inr p)
        then show ?thesis
          using Cons r Float32 interpolate_not_ValueError
          by (cases p) (simp add: ShortSideScale_forward_def)
      qed
    qed
  qed
qed

lemma center_crop_video_Inr:
  assumes "center_crop_video crop x = Inr y"
  shows "\<exists>c t h w. shape x = [c, t, h, w] \<and> crop \<le> h \<and> crop \<le> w \<and> shape y = [c, t, crop, crop]"
  using assms
  by (auto simp: center_crop_video_def Let_def crop_slice_len simp del: of_nat_diff
      split: list.splits if_splits)

lemma center_crop_video_ok:
  assumes "shape x = [c, t, h, w]" "crop \<le> h" "crop \<le> w"
  shows "\<exists>y. center_crop_video crop x = Inr y"
  using assms by (simp add: center_crop_video_def Let_def)

lemma hflip_shape: "shape (hflip x) = shape x"
  by (simp add: hflip_def)

lemma get_video_transform_Inr:
  assumes "get_video_transform b = Inr tr"
  shows "b = ''decord''"
    and "tr = [Lambda_div255, NormalizeVideo OPENAI_DATASET_MEAN OPENAI_DATASET_STD,
               ShortSideScale 224, CenterCropVideo 224, RandomHorizontalFlipVideo (1/2)]"
  using assms by (auto simp: get_video_transform_def split: if_splits)

lemma mean_std_length: "length OPENAI_DATASET_MEAN = 3" "length OPENAI_DATASET_STD = 3"
  by (simp_all add: OPENAI_DATASET_MEAN_def OPENAI_DATASET_STD_def)

lemma resized_then_cropped:
  assumes "ShortSideScale_forward 224 x1 = Inr x2"
  shows "\<exists>x3 c t h w. center_crop_video 224 x2 = Inr x3 \<and> shape x1 = [c, t, h, w]
           \<and> shape x3 = [c, t, 224, 224]"
proof -
  obtain c t h w nh nw where s: "shape x1 = [c, t, h, w]"
      "short_side_scale_size h w 224 = Inr (nh, nw)" "shape x2 = [c, t, nat nh, nat nw]"
    using ShortSideScale_forward_Inr[OF assms] by blast
  have "224 \<le> nh" "224 \<le> nw" using short_side_scale_size_ge(1,2)[OF s(2)] by simp_all
  then have ge: "224 \<le> nat nh" "224 \<le> nat nw" by simp_all
  obtain x3 where x3: "center_crop_video 224 x2 = Inr x3"
    using center_crop_video_ok[OF s(3) ge] by blast
  have "shape x3 = [c, t, 224, 224]" using center_crop_video_Inr[OF x3] s(3) by auto
  then show ?thesis using x3 s(1) by blast
qed

lemma pipeline_Inr:
  assumes "get_video_transform b = Inr tr" "Compose tr x wd = (Inr y, wd')"
  shows "\<exists>c t h w. shape x = [c, t, h, w] \<and> shape y = [c, t, 224, 224]"
proof -
  note tr = get_video_transform_Inr(2)[OF assms(1)]
  obtain x1 where x1: "normalize_video OPENAI_DATASET_MEAN OPENAI_DATASET_STD (lambda_div255 x) = Inr x1"
    using assms(2) unfolding tr Compose_pipeline by (auto split: sum.splits)
  obtain x2 where x2: "ShortSideScale_forward 224 x1 = Inr x2"
    using assms(2) x1 unfolding tr Compose_pipeline by (auto split: sum.splits)
  obtain x3 c t h w where x3: "center_crop_video 224 x2 = Inr x3" "shape x1 = [c, t, h, w]"
      "shape x3 = [c, t, 224, 224]"
    using resized_then_cropped[OF x2] by blast
  have y: "y = (if rng wd 0 < 1/2 then hflip x3 else x3)"
    using assms(2) x1 x2 x3(1) unfolding tr Compose_pipeline by (auto split: sum.splits)
  have "shape y = [c, t, 224, 224]" using x3(3) by (simp add: y hflip_shape)
  moreover have "shape x = [c, t, h, w]"
    using normalize_video_Inr(1)[OF x1] x3(2) by (simp add: lambda_div255_shape)
  ultimately show ?thesis by blast
qed

lemma pipeline_total:
  assumes "get_video_transform b = Inr tr" "shape x = [3, t, h, w]" "1 \<le> t" "1 \<le> h" "1 \<le> w"
  shows "\<exists>y wd'. Compose tr x wd = (Inr y, wd')"
proof -
  note tr = get_video_transform_Inr(2)[OF assms(1)]
  have sh: "shape (lambda_div255 x) = [3, t, h, w]" using assms(2) by (simp add: lambda_div255_shape)
  obtain x1 where x1: "normalize_video OPENAI_DATASET_MEAN OPENAI_DATASET_STD (lambda_div255 x) = Inr x1"
    using normalize_video_ok[OF sh] mean_std_length by auto
  have s1: "shape x1 = [3, t, h, w]" "dtype x1 = Float32"
    using normalize_video_Inr(1,2)[OF x1] sh by (simp_all add: lambda_div255_shape)
  obtain x2 where x2: "ShortSideScale_forward 224 x1 = Inr x2"
    using ShortSideScale_forward_ok[OF s1 assms(3,4,5), of 224] by auto
  obtain x3 where x3: "center_crop_video 224 x2 = Inr x3"
    using resized_then_cropped[OF x2] by blast
  show ?thesis unfolding tr Compose_pipeline by (simp add: x1 x2 x3)
qed

lemma pipeline_not_ValueError:
  assumes "get_video_transform b = Inr tr" "shape x = [c, t, h, w]"
  shows "\<not> is_ValueError (fst (Compose tr x wd))"
proof -
  note tr = get_video_transform_Inr(2)[OF assms(1)]
  have sh: "shape (lambda_div255 x) = [c, t, h, w]" using assms(2) by (simp add: lambda_div255_shape)
  show ?thesis
  proof (cases "normalize_video OPENAI_DATASET_MEAN OPENAI_DATASET_STD (lambda_div255 x)")
    case (Inl e)
    then show ?thesis
      using normalize_video_not_ValueError[OF sh, of OPENAI_DATASET_MEAN OPENAI_DATASET_STD]
      unfolding tr Compose_pipeline by simp
  next
    case x1: (Inr x1)
    show ?thesis
    proof (cases "ShortSideScale_forward 224 x1")
      case (Inl e)
      then show ?thesis
        using ShortSideScale_forward_not_ValueError[of 224 x1] x1
        unfolding tr Compose_pipeline by simp
    next
      case x2: (Inr x2)
      obtain x3 where x3: "center_crop_video 224 x2 = Inr x3"
        using resized_then_cropped[OF x2] by blast
      show ?thesis unfolding tr Compose_pipeline by (simp add: x1 x2 x3)
    qed
  qed
qed

lemma Compose_events:
  "events (snd (Compose ss x wd)) = events wd"
proof (induction ss arbitrary: x wd)
  case Nil
  then show ?case by simp
next
  case (Cons s ss)
  have st: "events (snd (apply_stage s x wd)) = events wd"
    by (cases s) (simp_all add: random_random_def)
  show ?case
  proof (cases "apply_stage s x wd")
    case (Pair r w1)
    then have w1: "events w1 = events wd" using st by simp
    show ?thesis
    proof (cases r)
      case (Inl e) then show ?thesis using Pair w1 by simp
    next
      case (Inr y) then show ?thesis using Pair w1 Cons.IH[of y w1] by simp
    qed
  qed
qed

section \<open>Frame indices: the claims\<close>

text \<open>
  Claim C2, as stated, fails for a single requested frame: the only index is then
  \<open>0\<close>, which is the last element too, and it is not \<open>D - 1\<close> unless \<open>D = 1\<close>. A
  video of two frames and \<^verbatim>\<open>num_frames = 1\<close> gives \<open>[0]\<close>.
\<close>

theorem C2_counterexample:
  "frame_id_list 2 1 = Inr [0] \<and> last [0 :: int] \<noteq> 2 - 1"
  by code_simp

text \<open>
  Claim C2, amended. For a duration \<open>D \<ge> 1\<close> and \<open>N \<ge> 2\<close> requested frames (both at
  most \<open>2\<^sup>5\<^sup>2\<close>), the selection returns \<open>N\<close> indices that are evenly spaced up to
  rounding: index \<open>i\<close> is the floor of a double-precision point within a relative error
  of \<open>2\<^sup>-\<^sup>5\<^sup>1\<close> of the evenly spaced position \<open>i (D - 1) / (N - 1)\<close>, and when
  \<open>N - 1\<close> divides \<open>D - 1\<close> the indices are exactly the evenly spaced integers
  \<open>i (D - 1) / (N - 1)\<close>. The first element is \<open>0\<close> and the last is \<open>D - 1\<close>, and the
  order is non-decreasing; when \<open>N \<le> D\<close> the indices are strictly increasing, hence
  distinct; when \<open>N > D\<close> some index repeats. With \<open>N = 1\<close> the only index is \<open>0\<close>.
\<close>

theorem C2_frame_indices_ordered:
  assumes "1 \<le> d" "d \<le> 2 ^ 52" "2 \<le> n" "n \<le> 2 ^ 52"
  shows "frame_id_list d 1 = Inr [0]
    \<and> (\<exists>ids. frame_id_list d n = Inr ids \<and> length ids = nat n
          \<and> (\<forall>i < nat n. \<exists>p. ids ! i = \<lfloor>p\<rfloor>
                \<and> \<bar>p - spec_linear_point d n i\<bar> \<le> spec_linear_point d n i / 2 ^ 51)
          \<and> ((n - 1) dvd (d - 1) \<longrightarrow>
                ids = map (\<lambda>i. int i * ((d - 1) div (n - 1))) [0..<nat n])
          \<and> hd ids = 0 \<and> last ids = d - 1 \<and> sorted ids
          \<and> (n \<le> d \<longrightarrow> sorted_wrt (<) ids \<and> distinct ids)
          \<and> (d < n \<longrightarrow> \<not> distinct ids))"
proof -
  have b: "d \<le> 2 ^ 53" "n \<le> 2 ^ 53" using assms by simp_all
  obtain ids where ids: "frame_id_list d n = Inr ids"
    using frame_id_list_many[OF assms(1) b(1) assms(3) b(2)] by blast
  note p = frame_ids_sorted[OF assms(1) b(1) assms(3) b(2) ids]
  have ne: "ids \<noteq> []" using p(1) assms(3) by auto
  have h: "hd ids = 0" using p(2) ne by (simp add: hd_conv_nth)
  have l: "last ids = d - 1" using p(3) p(1) ne by (simp add: last_conv_nth)
  have e: "\<forall>i < nat n. \<exists>p. ids ! i = \<lfloor>p\<rfloor>
                \<and> \<bar>p - spec_linear_point d n i\<bar> \<le> spec_linear_point d n i / 2 ^ 51"
    using frame_ids_spacing[OF assms(1) b(1) assms(3) b(2) ids] by blast
  have x: "ids = map (\<lambda>i. int i * ((d - 1) div (n - 1))) [0..<nat n]"
    if "(n - 1) dvd (d - 1)"
    using assms(1) b(1) assms(3) b(2) ids that by (rule frame_ids_exact)
  have s: "sorted_wrt (<) ids \<and> distinct ids" if "n \<le> d"
  proof -
    have "sorted_wrt (<) ids" using assms(3) that assms(2) ids by (rule frame_ids_strict)
    then show ?thesis by (simp add: strict_sorted_iff)
  qed
  have r: "\<not> distinct ids" if "d < n"
    using assms(1) b(1) assms(3) b(2) that ids by (rule frame_ids_repeat)
  show ?thesis using ids p(1,4) e x h l s r frame_id_list_one by blast
qed

theorem C2_witness:
  "(1::int) \<le> 10 \<and> (10::int) \<le> 2 ^ 52 \<and> (2::int) \<le> 4 \<and> (4::int) \<le> 2 ^ 52
   \<and> ((4::int) - 1) dvd (10 - 1) \<and> (4::int) \<le> 10
   \<and> frame_id_list 10 1 = Inr [0]
   \<and> (\<exists>ids. frame_id_list 10 4 = Inr ids \<and> length ids = nat 4
          \<and> (\<forall>i < nat 4. \<exists>p. ids ! i = \<lfloor>p\<rfloor>
                \<and> \<bar>p - spec_linear_point 10 4 i\<bar> \<le> spec_linear_point 10 4 i / 2 ^ 51)
          \<and> ids = [0, 3, 6, 9]
          \<and> hd ids = 0 \<and> last ids = 10 - 1 \<and> sorted ids
          \<and> sorted_wrt (<) ids \<and> distinct ids)"
proof -
  have m: "map (\<lambda>i. int i * ((10 - 1) div (4 - 1))) [0..<nat 4] = [0, 3, 6, 9]"
    by (simp add: upt_rec)
  have "\<exists>ids. frame_id_list 10 4 = Inr ids \<and> length ids = nat 4
          \<and> (\<forall>i < nat 4. \<exists>p. ids ! i = \<lfloor>p\<rfloor>
                \<and> \<bar>p - spec_linear_point 10 4 i\<bar> \<le> spec_linear_point 10 4 i / 2 ^ 51)
          \<and> ids = [0, 3, 6, 9]
          \<and> hd ids = 0 \<and> last ids = 10 - 1 \<and> sorted ids
          \<and> sorted_wrt (<) ids \<and> distinct ids"
    using C2_frame_indices_ordered [of 10 4] unfolding m by simp
  moreover have "frame_id_list 10 1 = Inr [0]"
    using C2_frame_indices_ordered [of 10 4] by simp
  ultimately show ?thesis by simp
qed

text \<open>
  Claim C3, as stated, fails: the points are rounded down, not to the nearest
  integer. Four frames and \<^verbatim>\<open>num_frames = 3\<close> give the points \<open>0, 1.5, 3\<close> and the
  indices \<open>[0, 1, 3]\<close>, where rounding to the nearest integer gives \<open>[0, 2, 3]\<close>.
\<close>

theorem C3_counterexample:
  "frame_id_list 4 3 = Inr [0, 1, 3] \<and> spec_frame_ids_nearest 4 3 = [0, 2, 3]"
  by code_simp

text \<open>
  Claim C3, amended. For a duration \<open>D \<ge> 1\<close> and a positive \<^verbatim>\<open>num_frames\<close> (both at
  most \<open>2\<^sup>5\<^sup>2\<close>), the selection returns exactly \<^verbatim>\<open>num_frames\<close> indices: the floors
  of \<^verbatim>\<open>num_frames\<close> double-precision points, each within a relative error of
  \<open>2\<^sup>-\<^sup>5\<^sup>1\<close> of the linearly spaced position \<open>i (D - 1) / (num_frames - 1)\<close>. Every
  index lies in \<open>[0, D - 1]\<close>, and indices repeat when \<open>D < num_frames\<close>.
\<close>

theorem C3_frame_indices_are_floors:
  assumes "1 \<le> d" "d \<le> 2 ^ 52" "1 \<le> n" "n \<le> 2 ^ 52"
  shows "\<exists>pts. np_linspace_points (d - 1) n = Inr pts
          \<and> frame_id_list d n = Inr (map floor pts)
          \<and> length pts = nat n
          \<and> (\<forall>i < nat n. \<bar>pts ! i - spec_linear_point d n i\<bar> \<le> spec_linear_point d n i / 2 ^ 51)
          \<and> set (map floor pts) \<subseteq> {0..d - 1}
          \<and> (d < n \<longrightarrow> \<not> distinct (map floor pts))"
proof (cases "n = 1")
  case True
  have "spec_linear_point d 1 0 = 0" by (simp add: spec_linear_point_def)
  then show ?thesis using assms(1) True
    by (intro exI[of _ "[0]"]) (simp add: np_linspace_points_one frame_id_list_one)
next
  case False
  then have n2: "2 \<le> n" using assms(3) by simp
  have b: "d \<le> 2 ^ 53" "n \<le> 2 ^ 53" using assms by simp_all
  let ?s = "fl64 (of_int (d - 1) / of_int (n - 1))"
  let ?pts = "(map (\<lambda>i. fl64 (of_nat i * ?s)) [0..<nat n])[nat n - 1 := of_int (d - 1)]"
  have pts: "np_linspace_points (d - 1) n = Inr ?pts"
    using assms(1) b(1) n2 b(2) by (rule np_linspace_points_bounded)
  then have ids: "frame_id_list d n = Inr (map floor ?pts)" by (rule frame_id_list_floor)
  have len: "length ?pts = nat n" by simp
  have err: "\<bar>?pts ! i - spec_linear_point d n i\<bar> \<le> spec_linear_point d n i / 2 ^ 51"
    if "i < nat n" for i
  proof (cases "i = nat n - 1")
    case True
    have "of_nat (nat n - 1) = (of_int (n - 1) :: rat)" using n2 by (simp add: of_nat_diff)
    then have "spec_linear_point d n i = of_int (d - 1)" using True n2
      by (simp add: spec_linear_point_def)
    moreover have "?pts ! i = of_int (d - 1)" using True that by simp
    moreover have "(0::rat) \<le> of_int (d - 1)" using assms(1) by simp
    ultimately show ?thesis by simp
  next
    case False
    then have "?pts ! i = fl64 (of_nat i * ?s)" using that by simp
    then show ?thesis using point_error[OF assms(1) n2, of i] by simp
  qed
  have rng: "set (map floor ?pts) \<subseteq> {0..d - 1}"
    using assms(1) b(1) n2 b(2) ids by (rule frame_ids_range)
  have rep: "\<not> distinct (map floor ?pts)" if "d < n"
    using assms(1) b(1) n2 b(2) that ids by (rule frame_ids_repeat)
  show ?thesis using pts ids len err rng rep by blast
qed

theorem C3_witness:
  "(1::int) \<le> 4 \<and> (4::int) \<le> 2 ^ 52 \<and> (1::int) \<le> 3 \<and> (3::int) \<le> 2 ^ 52
   \<and> (\<exists>pts. np_linspace_points (4 - 1) 3 = Inr pts
          \<and> frame_id_list 4 3 = Inr (map floor pts)
          \<and> length pts = nat 3
          \<and> (\<forall>i < nat 3. \<bar>pts ! i - spec_linear_point 4 3 i\<bar> \<le> spec_linear_point 4 3 i / 2 ^ 51)
          \<and> set (map floor pts) \<subseteq> {0..4 - 1})"
  using C3_frame_indices_are_floors [of 4 3] by simp

section \<open>Output size of the transform\<close>

text \<open>
  Claim C7. For an input tensor of shape \<open>(C, T, H, W)\<close> with \<open>H \<ge> 1\<close> and \<open>W \<ge> 1\<close>,
  every output of the full pipeline has shape \<open>(C, T, 224, 224)\<close>, whatever the input
  resolution and aspect ratio; and for three channels and at least one frame the
  pipeline does return an output. (With another channel count the normalisation
  raises, with no frame the interpolation does: there is no output then.)
\<close>

theorem C7_output_is_224_by_224:
  assumes "get_video_transform ''decord'' = Inr tr" "shape x = [c, t, h, w]" "1 \<le> h" "1 \<le> w"
  shows "(\<forall>y wd'. Compose tr x wd = (Inr y, wd') \<longrightarrow> shape y = [c, t, 224, 224])
       \<and> (c = 3 \<and> 1 \<le> t \<longrightarrow> (\<exists>y wd'. Compose tr x wd = (Inr y, wd') \<and> shape y = [c, t, 224, 224]))"
proof (intro conjI allI impI)
  fix y wd' assume "Compose tr x wd = (Inr y, wd')"
  then show "shape y = [c, t, 224, 224]" using pipeline_Inr[OF assms(1)] assms(2) by fastforce
next
  assume ct: "c = 3 \<and> 1 \<le> t"
  then have "shape x = [3, t, h, w]" using assms(2) by simp
  then obtain y wd' where y: "Compose tr x wd = (Inr y, wd')"
    using pipeline_total[OF assms(1) _ _ assms(3,4)] ct by blast
  then have "shape y = [c, t, 224, 224]" using pipeline_Inr[OF assms(1) y] assms(2) by fastforce
  then show "\<exists>y wd'. Compose tr x wd = (Inr y, wd') \<and> shape y = [c, t, 224, 224]" using y by blast
qed

theorem C7_witness:
  "get_video_transform ''decord'' = Inr (transform SELF0) \<and> shape X0 = [3, 1, 1, 2]
   \<and> (1::nat) \<le> 1 \<and> (1::nat) \<le> 2
   \<and> (\<exists>y wd'. Compose (transform SELF0) X0 W0 = (Inr y, wd') \<and> shape y = [3, 1, 224, 224])"
proof -
  have a: "get_video_transform ''decord'' = Inr (transform SELF0)"
    by (simp add: get_video_transform_def SELF0_def)
  have b: "shape X0 = [3, 1, 1, 2]" by (simp add: X0_def)
  show ?thesis using C7_output_is_224_by_224 [OF a b, of W0] a b by simp
qed

text \<open>
  Claim C8, as stated, fails. The sizes are computed in doubles, and the result can be
  one less than the floor of the exact product: for \<open>H = 61\<close>, \<open>W = 7\<close> the exact value
  of \<open>H / W \<times> 224\<close> is \<open>1952\<close>, but \<^verbatim>\<open>float(61) / 7\<close> is the double
  \<open>8.71428571428571352...\<close>, its product with \<open>224\<close> rounds to the double
  \<open>1951.99999999999977...\<close>, and the new height is \<open>1951\<close>. And a tensor with \<open>H = 0\<close>
  or \<open>W = 0\<close> has no resized dimensions: the division raises \<^verbatim>\<open>ZeroDivisionError\<close>.
\<close>

theorem C8_counterexample:
  "short_side_scale_size 61 7 224 = Inr (1951, 224)
   \<and> spec_short_side_scale_size 61 7 224 = (1952, 224)
   \<and> short_side_scale_size 0 5 224 = Inl (ZeroDivisionError ''float division by zero'')"
  by code_simp

text \<open>
  Claim C8, amended. For \<open>H \<ge> 1\<close> and \<open>W \<ge> 1\<close> (at most \<open>2\<^sup>5\<^sup>3\<close>), \<^verbatim>\<open>ShortSideScale\<close>
  with target size 224 computes: if \<open>W < H\<close>, the new width \<open>224\<close> and the new height
  \<open>\<lfloor>p\<rfloor>\<close>, where \<open>p\<close> is the double-precision product of the double-precision quotient
  \<open>H / W\<close> with \<open>224\<close>; otherwise the new height \<open>224\<close> and the new width likewise from
  \<open>W / H\<close>. The short side is exactly \<open>224\<close>, and \<open>p\<close> is within a relative error of
  \<open>2\<^sup>-\<^sup>5\<^sup>1\<close> of the exact product, so the aspect ratio is preserved up to rounding. A
  float32 tensor of shape \<open>(C, T, H, W)\<close> with \<open>T \<ge> 1\<close> is resized to these dimensions.
\<close>

theorem C8_short_side_scale_sizes:
  assumes "1 \<le> h" "h \<le> 2 ^ 53" "1 \<le> w" "w \<le> 2 ^ 53"
  shows "\<exists>nh nw. short_side_scale_size h w 224 = Inr (nh, nw)
     \<and> (w < h \<longrightarrow> nw = 224 \<and> nh = \<lfloor>fl64 (fl64 (of_nat h / of_nat w) * 224)\<rfloor>
           \<and> \<bar>fl64 (fl64 (of_nat h / of_nat w) * 224) - of_nat h / of_nat w * 224\<bar>
               \<le> of_nat h / of_nat w * 224 / 2 ^ 51)
     \<and> (\<not> w < h \<longrightarrow> nh = 224 \<and> nw = \<lfloor>fl64 (fl64 (of_nat w / of_nat h) * 224)\<rfloor>
           \<and> \<bar>fl64 (fl64 (of_nat w / of_nat h) * 224) - of_nat w / of_nat h * 224\<bar>
               \<le> of_nat w / of_nat h * 224 / 2 ^ 51)
     \<and> min nh nw = 224
     \<and> (shape x = [c, t, h, w] \<and> dtype x = Float32 \<and> 1 \<le> t \<longrightarrow>
          (\<exists>y. ShortSideScale_forward 224 x = Inr y \<and> shape y = [c, t, nat nh, nat nw]))"
proof -
  have fh: "fl64 (of_nat h) = of_nat h" using assms(2) by (rule fl64_of_nat)
  have fw: "fl64 (of_nat w) = of_nat w" using assms(4) by (rule fl64_of_nat)
  have fs: "fl64 (of_int 224) = 224" using fl64_of_int[of 224] by simp
  obtain nh nw where sz: "short_side_scale_size h w 224 = Inr (nh, nw)"
    using short_side_scale_size_pos[OF assms(1,3), of 224] by (cases "w < h") simp_all
  note eq = short_side_scale_size_pos[OF assms(1,3), of 224, unfolded fh fw fs sz]
  have err: "\<bar>fl64 (fl64 q * 224) - q * 224\<bar> \<le> q * 224 / 2 ^ 51" if "0 \<le> q" for q :: rat
    using fl64_scaled_error[of 224 q] that by (simp add: mult.commute)
  have a: "nw = 224 \<and> nh = \<lfloor>fl64 (fl64 (of_nat h / of_nat w) * 224)\<rfloor>
           \<and> \<bar>fl64 (fl64 (of_nat h / of_nat w) * 224) - of_nat h / of_nat w * 224\<bar>
               \<le> of_nat h / of_nat w * 224 / 2 ^ 51" if "w < h"
    using eq that err[of "of_nat h / of_nat w"] by simp
  have b: "nh = 224 \<and> nw = \<lfloor>fl64 (fl64 (of_nat w / of_nat h) * 224)\<rfloor>
           \<and> \<bar>fl64 (fl64 (of_nat w / of_nat h) * 224) - of_nat w / of_nat h * 224\<bar>
               \<le> of_nat w / of_nat h * 224 / 2 ^ 51" if "\<not> w < h"
    using eq that err[of "of_nat w / of_nat h"] by simp
  have m: "min nh nw = 224" using short_side_scale_size_ge(3)[OF sz] by simp
  have f: "\<exists>y. ShortSideScale_forward 224 x = Inr y \<and> shape y = [c, t, nat nh, nat nw]"
    if "shape x = [c, t, h, w] \<and> dtype x = Float32 \<and> 1 \<le> t"
  proof -
    have sx: "shape x = [c, t, h, w]" "dtype x = Float32" "1 \<le> t" using that by simp_all
    have "\<exists>y nh' nw'. ShortSideScale_forward 224 x = Inr y
           \<and> short_side_scale_size h w 224 = Inr (nh', nw') \<and> shape y = [c, t, nat nh', nat nw']"
      using sx assms(1,3) by (rule ShortSideScale_forward_ok) simp_all
    then show ?thesis using sz by auto
  qed
  show ?thesis using sz a b m f by blast
qed

theorem C8_witness:
  "(1::nat) \<le> 61 \<and> (61::nat) \<le> 2 ^ 53 \<and> (1::nat) \<le> 7 \<and> (7::nat) \<le> 2 ^ 53
   \<and> (\<exists>nh nw. short_side_scale_size 61 7 224 = Inr (nh, nw) \<and> nw = 224
         \<and> nh = \<lfloor>fl64 (fl64 (61 / 7) * 224)\<rfloor> \<and> min nh nw = 224)"
  using C8_short_side_scale_sizes [of 61 7] by simp

section \<open>Determinism of the transform\<close>

lemma pipeline_before_flip:
  assumes "get_video_transform b = Inr tr"
  shows "fst (Compose tr x wd) =
           (case fst (Compose (butlast tr) x wd') of
              Inl e \<Rightarrow> Inl e
            | Inr y \<Rightarrow> Inr (if rng wd 0 < 1/2 then hflip y else y))"
  unfolding get_video_transform_Inr(2)[OF assms] Compose_pipeline
  by (simp split: sum.splits)

lemma X0_flipped: 
  "elem (projr (fst (Compose (projr (get_video_transform ''decord'')) X0 W0))) [0, 0, 0, 0]
     = 180709619 / 94020339"
  by code_simp

lemma X0_kept:
  "elem (projr (fst (Compose (projr (get_video_transform ''decord'')) X0 W1))) [0, 0, 0, 0]
     = - (167727881 / 94020339)"
  by code_simp

text \<open>
  Claim C4, as stated, fails: the last stage of the pipeline,
  \<^verbatim>\<open>RandomHorizontalFlipVideo(p=0.5)\<close>, draws from Python's random generator. On the
  one-frame input \<open>X0\<close> (a black pixel left of a white one) a draw of \<open>1/4\<close> flips the
  picture and a draw of \<open>3/4\<close> does not, and the two outputs differ in their first
  element.
\<close>

theorem C4_counterexample:
  "fst (Compose (projr (get_video_transform ''decord'')) X0 W0)
     \<noteq> fst (Compose (projr (get_video_transform ''decord'')) X0 W1)"
proof
  assume "fst (Compose (projr (get_video_transform ''decord'')) X0 W0)
     = fst (Compose (projr (get_video_transform ''decord'')) X0 W1)"
  then have "elem (projr (fst (Compose (projr (get_video_transform ''decord'')) X0 W0))) [0, 0, 0, 0]
     = elem (projr (fst (Compose (projr (get_video_transform ''decord'')) X0 W1))) [0, 0, 0, 0]"
    by simp
  then show False unfolding X0_flipped X0_kept by simp
qed

text \<open>
  Claim C4, amended. The pipeline is deterministic up to its final random flip: the
  output is a function of the input tensor and of one draw of the random generator. Two
  applications to the same input give the same result when their draws fall on the same
  side of \<open>0.5\<close>, and otherwise results that are mirror images of each other along the
  width axis.
\<close>

theorem C4_deterministic_up_to_the_flip:
  assumes "get_video_transform ''decord'' = Inr tr"
  shows "((rng wd 0 < 1/2) = (rng wd' 0 < 1/2) \<longrightarrow> fst (Compose tr x wd) = fst (Compose tr x wd'))
       \<and> (rng wd 0 < 1/2 \<and> \<not> rng wd' 0 < 1/2 \<longrightarrow>
            fst (Compose tr x wd) = map_sum id hflip (fst (Compose tr x wd')))"
proof -
  note a = pipeline_before_flip[OF assms, of x wd wd]
  note b = pipeline_before_flip[OF assms, of x wd' wd]
  show ?thesis unfolding a b by (auto split: sum.splits)
qed

theorem C4_witness:
  "get_video_transform ''decord'' = Inr (transform SELF0)
   \<and> (rng W0 0 < 1/2) = (rng W2 0 < 1/2)
   \<and> fst (Compose (transform SELF0) X0 W0) = fst (Compose (transform SELF0) X0 W2)
   \<and> rng W0 0 < 1/2 \<and> \<not> rng W1 0 < 1/2
   \<and> fst (Compose (transform SELF0) X0 W0) = map_sum id hflip (fst (Compose (transform SELF0) X0 W1))"
proof -
  have a: "get_video_transform ''decord'' = Inr (transform SELF0)"
    by (simp add: get_video_transform_def SELF0_def)
  show ?thesis
    using C4_deterministic_up_to_the_flip [OF a, of W0 W2 X0]
      C4_deterministic_up_to_the_flip [OF a, of W0 W1 X0] a
    by (simp add: W0_def W1_def W2_def)
qed

section \<open>The call wrapper: helper lemmas\<close>

lemma load_and_transform_video_events:
  "events (snd (load_and_transform_video fs p tr b n w)) =
     (if b = ''decord'' then Video_opened p # events w else events w)"
  by (simp add: load_and_transform_video_def Let_def record_event_def Compose_events
      split: option.splits sum.splits)

lemma image_features_events:
  "length (events w) + (if ims = [] then 0 else 1)
     \<le> length (events (snd (image_features self fs ims w)))"
proof (induction ims arbitrary: w)
  case Nil
  then show ?case by simp
next
  case (Cons im ims)
  let ?w0 = "record_event (Image_processor_called im) w"
  let ?r = "load_and_transform_video fs im (transform self)
             (video_decode_backend (vision_config (config self)))
             (num_frames (vision_config (config self))) ?w0"
  have a: "length (events w) + 1 \<le> length (events (snd ?r))"
    by (simp add: load_and_transform_video_events record_event_def)
  show ?case
  proof (cases ?r)
    case (Pair res w1)
    show ?thesis
    proof (cases res)
      case (Inl e)
      then show ?thesis using Pair a by simp
    next
      case (Inr t)
      have b: "length (events w1) \<le> length (events (snd (image_features self fs ims w1)))"
        using Cons.IH[of w1] by (simp split: if_splits)
      show ?thesis
      proof (cases "image_features self fs ims w1")
        case p2: (Pair res2 w2)
        then show ?thesis using Pair Inr a b by (cases res2) simp_all
      qed
    qed
  qed
qed

lemma frame_id_list_nonneg: "0 \<le> n \<Longrightarrow> n < 2 ^ 60 \<Longrightarrow> \<exists>ids. frame_id_list d n = Inr ids"
  by (simp add: frame_id_list_def np_linspace_points_def Let_def)

lemma frame_id_list_length: "frame_id_list d n = Inr ids \<Longrightarrow> length ids = nat n"
  by (auto simp: frame_id_list_def np_linspace_points_def Let_def split: if_splits)

lemma get_batch_Inr:
  "get_batch v ids = Inr t \<Longrightarrow> shape t = [length ids, height v, width v, 3] \<and> dtype t = UInt8"
  by (auto simp: get_batch_def Let_def split: if_splits)

lemma get_batch_not_ValueError: "\<not> is_ValueError (get_batch v ids)"
  by (simp add: get_batch_def Let_def)

lemma permute_3012_shape:
  "shape t = [a, b, c, d] \<Longrightarrow> \<exists>t'. permute_3012 t = Inr t' \<and> shape t' = [d, a, b, c]"
  by (simp add: permute_3012_def)

lemma load_and_transform_video_not_ValueError:
  assumes "get_video_transform b' = Inr tr" "0 \<le> n" "n < 2 ^ 60"
  shows "\<not> is_ValueError (fst (load_and_transform_video fs p tr b n w))"
proof (cases "b = ''decord''")
  case False
  then show ?thesis by (simp add: load_and_transform_video_def)
next
  case True
  show ?thesis
  proof (cases "fs p")
    case None
    then show ?thesis using True by (simp add: load_and_transform_video_def Let_def)
  next
    case (Some v)
    obtain ids where ids: "frame_id_list (int (n_frames v)) n = Inr ids"
      using frame_id_list_nonneg[OF assms(2,3)] by blast
    show ?thesis
    proof (cases "get_batch v ids")
      case (Inl e)
      then show ?thesis using True Some ids get_batch_not_ValueError[of v ids]
        by (simp add: load_and_transform_video_def Let_def)
    next
      case (Inr t)
      obtain t' where t': "permute_3012 t = Inr t'" "shape t' = [3, length ids, height v, width v]"
        using permute_3012_shape get_batch_Inr[OF Inr] by blast
      show ?thesis using True Some ids Inr t'(1) pipeline_not_ValueError[OF assms(1) t'(2)]
        by (simp add: load_and_transform_video_def Let_def)
    qed
  qed
qed

lemma image_features_not_ValueError:
  assumes "get_video_transform b' = Inr (transform self)"
    "0 \<le> num_frames (vision_config (config self))"
    "num_frames (vision_config (config self)) < 2 ^ 60"
  shows "\<not> is_ValueError (fst (image_features self fs ims w))"
proof (induction ims arbitrary: w)
  case Nil
  then show ?case by simp
next
  case (Cons im ims)
  let ?r = "load_and_transform_video fs im (transform self)
             (video_decode_backend (vision_config (config self)))
             (num_frames (vision_config (config self)))
             (record_event (Image_processor_called im) w)"
  have a: "\<not> is_ValueError (fst ?r)" using assms by (rule load_and_transform_video_not_ValueError)
  show ?case
  proof (cases ?r)
    case (Pair res w1)
    show ?thesis
    proof (cases res)
      case (Inl e)
      then show ?thesis using Pair a by simp
    next
      case (Inr t)
      show ?thesis
      proof (cases "image_features self fs ims w1")
        case p2: (Pair res2 w2)
        then show ?thesis using Pair Inr Cons.IH[of w1] by (cases res2) simp_all
      qed
    qed
  qed
qed

lemma torch_stack_not_ValueError: "\<not> is_ValueError (torch_stack ts)"
  by (simp add: torch_stack_def split: list.splits)

lemma pixel_batch_not_ValueError:
  assumes "get_video_transform b' = Inr (transform self)"
    "0 \<le> num_frames (vision_config (config self))"
    "num_frames (vision_config (config self)) < 2 ^ 60"
  shows "\<not> is_ValueError (fst (pixel_batch self fs ims w))"
proof (cases "image_features self fs (make_list_of_images ims) w")
  case (Pair res w1)
  then show ?thesis
    using image_features_not_ValueError[OF assms, of fs "make_list_of_images ims" w]
      torch_stack_not_ValueError
    by (cases res) (simp_all add: pixel_batch_def)
qed

lemma pixel_batch_events:
  "length (events w) + (if make_list_of_images ims = [] then 0 else 1)
     \<le> length (events (snd (pixel_batch self fs ims w)))"
proof (cases "image_features self fs (make_list_of_images ims) w")
  case (Pair res w1)
  then show ?thesis
    using image_features_events[of w "make_list_of_images ims" self fs]
    by (cases res) (simp_all add: pixel_batch_def)
qed

lemma pixel_batch_empty:
  "make_list_of_images ims = [] \<Longrightarrow> \<not> is_ValueError (fst (pixel_batch self fs ims w))"
  by (simp add: pixel_batch_def torch_stack_def)

lemma pixel_batch_silent_not_ValueError:
  "events (snd (pixel_batch self fs ims w)) = events w \<Longrightarrow>
     \<not> is_ValueError (fst (pixel_batch self fs ims w))"
  using pixel_batch_events[of w ims self fs] pixel_batch_empty[of ims self fs w]
  by (cases "make_list_of_images ims = []") simp_all

lemma tokenize_cases:
  "tokenize self t cl rt kw w = (Inl (TypeError ''got multiple values for keyword argument''), w)
   \<or> events (snd (tokenize self t cl rt kw w)) = Tokenizer_called # events w"
  by (simp add: tokenize_def record_event_def)

lemma tokenize_silent_not_ValueError:
  "events (snd (tokenize self t cl rt kw w)) = events w \<Longrightarrow>
     \<not> is_ValueError (fst (tokenize self t cl rt kw w))"
  using tokenize_cases[of self t cl rt kw w] by auto

lemma tokenize_not_ValueError:
  "(\<And>a. \<not> is_ValueError (encode (tokenizer self) a)) \<Longrightarrow>
     \<not> is_ValueError (fst (tokenize self t cl rt kw w))"
  by (simp add: tokenize_def)

lemma tokenize_events_mono:
  "length (events w) \<le> length (events (snd (tokenize self t cl rt kw w)))"
  by (simp add: tokenize_def record_event_def)

lemma call_images_only:
  "fst (call self fs (Some ims) None cl rt kw w) =
     (case fst (pixel_batch self fs ims w) of
        Inl e \<Rightarrow> Inl e
      | Inr px \<Rightarrow> Inr [''pixel_values'' \<mapsto> PixelValues px])"
  "snd (call self fs (Some ims) None cl rt kw w) = snd (pixel_batch self fs ims w)"
  by (simp_all add: call_def split: prod.splits sum.splits)

lemma call_text_only:
  "call self fs None (Some t) cl rt kw w = tokenize self t cl rt kw w"
  by (simp add: call_def)

lemma call_both:
  "fst (call self fs (Some ims) (Some t) cl rt kw w) =
     (case tokenize self t cl rt kw w of
        (Inl e, w1) \<Rightarrow> Inl e
      | (Inr enc, w1) \<Rightarrow>
          (case fst (pixel_batch self fs ims w1) of
             Inl e \<Rightarrow> Inl e
           | Inr px \<Rightarrow> Inr (enc(''pixel_values'' \<mapsto> PixelValues px))))"
  "snd (call self fs (Some ims) (Some t) cl rt kw w) =
     (case tokenize self t cl rt kw w of
        (Inl e, w1) \<Rightarrow> w1
      | (Inr enc, w1) \<Rightarrow> snd (pixel_batch self fs ims w1))"
  by (simp_all add: call_def split: prod.splits sum.splits)

lemma call_silent_not_ValueError:
  assumes "text_in \<noteq> None \<or> images \<noteq> None"
    "events (snd (call self fs images text_in cl rt kw w)) = events w"
  shows "\<not> is_ValueError (fst (call self fs images text_in cl rt kw w))"
proof (cases text_in)
  case None
  then obtain ims where ims: "images = Some ims" using assms(1) by auto
  have "events (snd (pixel_batch self fs ims w)) = events w"
    using assms(2) by (simp add: None ims call_images_only)
  then have "\<not> is_ValueError (fst (pixel_batch self fs ims w))"
    by (rule pixel_batch_silent_not_ValueError)
  then show ?thesis by (simp add: None ims call_images_only)
next
  case (Some t)
  show ?thesis
  proof (cases images)
    case None
    then show ?thesis using assms(2) Some tokenize_silent_not_ValueError
      by (simp add: call_text_only)
  next
    case ims: (Some ims)
    show ?thesis
    proof (cases "tokenize self t cl rt kw w")
      case (Pair res w1)
      show ?thesis
      proof (cases res)
        case (Inl e)
        then show ?thesis
          using assms(2) Pair tokenize_silent_not_ValueError[of self t cl rt kw w]
          by (simp add: Some ims call_both)
      next
        case (Inr enc)
        have "events w1 = Tokenizer_called # events w"
          using tokenize_cases[of self t cl rt kw w] Pair Inr by simp
        moreover have "length (events w1) \<le> length (events (snd (pixel_batch self fs ims w1)))"
          using pixel_batch_events[of w1 ims self fs] by (simp split: if_splits)
        moreover have "events (snd (pixel_batch self fs ims w1)) = events w"
          using assms(2) Pair Inr by (simp add: Some ims call_both)
        ultimately show ?thesis by simp
      qed
    qed
  qed
qed

lemma init_Inr:
  assumes "LanguageBindVideoProcessor_init cfg tok = Inr self"
  shows "config self = cfg" "tokenizer self = tok"
    "get_video_transform ''decord'' = Inr (transform self)"
proof -
  obtain tr where tr: "get_video_transform (video_decode_backend (vision_config cfg)) = Inr tr"
    and self: "self = \<lparr>config = cfg, transform = tr, tokenizer = tok\<rparr>"
    using assms by (auto simp: LanguageBindVideoProcessor_init_def split: sum.splits)
  show "config self = cfg" "tokenizer self = tok" by (simp_all add: self)
  show "get_video_transform ''decord'' = Inr (transform self)"
    using tr get_video_transform_Inr(1)[OF tr] by (simp add: self)
qed

lemma call_not_ValueError:
  assumes "LanguageBindVideoProcessor_init cfg tok = Inr self"
    "0 \<le> num_frames (vision_config cfg)" "num_frames (vision_config cfg) < 2 ^ 60"
    "\<And>a. \<not> is_ValueError (encode tok a)"
    "text_in \<noteq> None \<or> images \<noteq> None"
  shows "\<not> is_ValueError (fst (call self fs images text_in cl rt kw w))"
proof -
  note i = init_Inr[OF assms(1)]
  have px: "\<not> is_ValueError (fst (pixel_batch self fs ims w'))" for ims w'
    using i(3) assms(2,3) by (intro pixel_batch_not_ValueError) (simp_all add: i(1))
  have tk: "\<not> is_ValueError (fst (tokenize self t cl rt kw w))" for t
    using assms(4) by (intro tokenize_not_ValueError) (simp add: i(2))
  show ?thesis
  proof (cases text_in)
    case None
    then obtain ims where ims: "images = Some ims" using assms(5) by auto
    show ?thesis using px[of ims w] by (simp add: None ims call_images_only)
  next
    case (Some t)
    show ?thesis
    proof (cases images)
      case None
      then show ?thesis using tk[of t] Some by (simp add: call_text_only)
    next
      case ims: (Some ims)
      show ?thesis
      proof (cases "tokenize self t cl rt kw w")
        case (Pair res w1)
        show ?thesis
        proof (cases res)
          case (Inl e)
          then show ?thesis using tk[of t] Pair by (simp add: Some ims call_both)
        next
          case (Inr enc)
          then show ?thesis using px[of ims w1] Pair
            by (simp add: Some ims call_both)
        qed
      qed
    qed
  qed
qed

section \<open>Decoding: \<^verbatim>\<open>batch_decode\<close> and \<^verbatim>\<open>decode\<close>\<close>

lemma bind_decode_args_keyword_only:
  "bind_decode_args [] kw = Inr (spec_forward_args [] kw)"
  by (cases "kw ''skip_special_tokens''") (auto simp: bind_decode_args_def spec_forward_args_def)

text \<open>
  Claim C5. \<^verbatim>\<open>batch_decode\<close> and \<^verbatim>\<open>decode\<close> are documented to forward all their
  arguments to the tokenizer, adding only the default \<^verbatim>\<open>skip_special_tokens=True\<close>.
  With the parameter \<^verbatim>\<open>skip_special_tokens\<close> declared before \<^verbatim>\<open>*args\<close>, a call with
  one positional argument, \<^verbatim>\<open>processor.batch_decode(ids)\<close>, reaches the tokenizer with
  no positional argument at all and with \<^verbatim>\<open>skip_special_tokens=ids\<close>, where forwarding
  would pass \<^verbatim>\<open>ids\<close> positionally with \<^verbatim>\<open>skip_special_tokens=True\<close>. Calls that use
  keywords only are forwarded as documented (\<open>bind_decode_args_keyword_only\<close>).
\<close>

theorem C5_first_positional_argument_is_not_forwarded:
  "batch_decode self [ids] Map.empty
     = tok_batch_decode (tokenizer self) [] [''skip_special_tokens'' \<mapsto> ids]
   \<and> decode self [ids] Map.empty
     = tok_decode (tokenizer self) [] [''skip_special_tokens'' \<mapsto> ids]
   \<and> spec_forward_args [ids] Map.empty = ([ids], [''skip_special_tokens'' \<mapsto> PBool True])
   \<and> bind_decode_args [PList [PList [PInt 1, PInt 2]]] Map.empty
     \<noteq> Inr (spec_forward_args [PList [PList [PInt 1, PInt 2]]] Map.empty)"
  by (simp add: batch_decode_def decode_def bind_decode_args_def spec_forward_args_def)

section \<open>Backend selection\<close>

text \<open>
  Claim C6. \<^verbatim>\<open>get_video_transform\<close> returns the pipeline exactly for the backend
  name \<^verbatim>\<open>"decord"\<close>; for any other string it raises \<^verbatim>\<open>NameError\<close>, and so does
  \<^verbatim>\<open>load_and_transform_video\<close>, which then leaves the world as it was: no video has
  been opened. \<^verbatim>\<open>get_video_transform\<close> has no access to the file system at all, and it
  runs in the constructor of the processor, which fails with the same error.
\<close>

theorem C6_only_decord_is_accepted:
  "(get_video_transform b =
      Inr [Lambda_div255, NormalizeVideo OPENAI_DATASET_MEAN OPENAI_DATASET_STD,
           ShortSideScale 224, CenterCropVideo 224, RandomHorizontalFlipVideo (1/2)])
     = (b = ''decord'')
   \<and> (b \<noteq> ''decord'' \<longrightarrow>
        get_video_transform b = Inl (NameError
          (''video_decode_backend should specify in (pytorchvideo, decord, opencv) but got '' @ b))
      \<and> LanguageBindVideoProcessor_init
            \<lparr>vision_config = \<lparr>video_decode_backend = b, num_frames = n\<rparr>\<rparr> tok = Inl (NameError
          (''video_decode_backend should specify in (pytorchvideo, decord, opencv) but got '' @ b))
      \<and> load_and_transform_video fs path tr b n w = (Inl (NameError
          ''video_decode_backend should specify in (pytorchvideo, decord, opencv)''), w))"
  by (simp add: get_video_transform_def load_and_transform_video_def
      LanguageBindVideoProcessor_init_def)

theorem C6_witness:
  "''opencv'' \<noteq> ''decord''
   \<and> get_video_transform ''opencv'' = Inl (NameError
          ''video_decode_backend should specify in (pytorchvideo, decord, opencv) but got opencv'')
   \<and> LanguageBindVideoProcessor_init
         \<lparr>vision_config = \<lparr>video_decode_backend = ''opencv'', num_frames = 8\<rparr>\<rparr> TOK0 = Inl (NameError
          ''video_decode_backend should specify in (pytorchvideo, decord, opencv) but got opencv'')
   \<and> load_and_transform_video FS0 ''clip.mp4'' [] ''opencv'' 8 W0 = (Inl (NameError
          ''video_decode_backend should specify in (pytorchvideo, decord, opencv)''), W0)"
  using C6_only_decord_is_accepted [of "''opencv''" 8 TOK0 FS0 "''clip.mp4''" "[]" W0] by simp

section \<open>The call wrapper\<close>

text \<open>
  Claim C10. With \<^verbatim>\<open>text=None\<close> and \<^verbatim>\<open>images=[]\<close> the guard of line 115 does not
  fire (the list is not \<^verbatim>\<open>None\<close>), no mapping is returned, and the call fails in
  \<^verbatim>\<open>torch.stack\<close> on the empty list; nothing has been invoked.
\<close>

theorem C10_empty_image_list_fails_in_stack:
  "call self fs (Some (Inr [])) None context_length rt kw w
     = (Inl (RuntimeError ''stack expects a non-empty TensorList''), w)"
  by (simp add: call_def pixel_batch_def make_list_of_images_def torch_stack_def)

lemma pixel_batch_SELF0:
  "\<not> isl (fst (pixel_batch SELF0 FS0 (Inl ''clip.mp4'') (record_event Tokenizer_called W0)))"
  "\<not> isl (fst (pixel_batch SELF_NONE FS0 (Inl ''clip.mp4'') W0))"
  by code_simp+

text \<open>
  Claim C1, as stated, fails in its text-only case. Line 142 returns the tokenizer's
  mapping as it is, so the result contains a pixel key whenever the tokenizer's mapping
  has one: with a tokenizer whose encoding has an entry \<^verbatim>\<open>pixel_values\<close>, a call with
  text only returns a mapping with that key.
\<close>

theorem C1_counterexample:
  "fst (call SELF_PIXEL FS0 None (Some ''a clip'') 77 None Map.empty W0) = Inr ENC_PIXEL
   \<and> ENC_PIXEL ''pixel_values'' = Some (PixelValues X0)"
  by (simp add: call_def tokenize_def SELF_PIXEL_def TOK_PIXEL_def ENC_PIXEL_def)

text \<open>
  Claim C1, amended. A call with text only is the call of the tokenizer: its result is
  the tokenizer's encoding mapping, unchanged, so the call adds no pixel key. A call
  with images only, when the image path returns the pixel batch, returns the mapping
  whose single key \<^verbatim>\<open>pixel_values\<close> holds that batch, which is stacked from the per-item
  tensors; neither the tokenizer nor the keyword arguments meant for it play a part. A
  call with both, when the tokenizer returns \<open>enc\<close> and the image path (run after the
  tokenizer) returns the batch, returns \<open>enc\<close> with the batch stored under
  \<^verbatim>\<open>pixel_values\<close>. Each case assumes the success of the collaborators it uses, and of
  no other.
\<close>

theorem C1_call_result:
  "call self fs None (Some t) cl rt kw w = tokenize self t cl rt kw w
   \<and> (tokenize self t cl rt kw w = (Inr enc, w1) \<longrightarrow>
        fst (call self fs None (Some t) cl rt kw w) = Inr enc)
   \<and> (pixel_batch self fs ims w = (Inr px, w2) \<longrightarrow>
        (\<exists>res. fst (call self fs (Some ims) None cl rt kw w) = Inr res
            \<and> dom res = {''pixel_values''} \<and> res ''pixel_values'' = Some (PixelValues px))
        \<and> (\<exists>ts. fst (image_features self fs (make_list_of_images ims) w) = Inr ts
            \<and> torch_stack ts = Inr px))
   \<and> (tokenize self t cl rt kw w = (Inr enc, w1) \<and> pixel_batch self fs ims w1 = (Inr px', w3) \<longrightarrow>
        fst (call self fs (Some ims) (Some t) cl rt kw w)
          = Inr (enc(''pixel_values'' \<mapsto> PixelValues px')))"
proof (intro conjI impI)
  show "call self fs None (Some t) cl rt kw w = tokenize self t cl rt kw w"
    by (rule call_text_only)
  show "fst (call self fs None (Some t) cl rt kw w) = Inr enc"
    if "tokenize self t cl rt kw w = (Inr enc, w1)"
    using that by (simp add: call_text_only)
  show "\<exists>res. fst (call self fs (Some ims) None cl rt kw w) = Inr res
            \<and> dom res = {''pixel_values''} \<and> res ''pixel_values'' = Some (PixelValues px)"
    if "pixel_batch self fs ims w = (Inr px, w2)"
    using that by (simp add: call_images_only)
  show "\<exists>ts. fst (image_features self fs (make_list_of_images ims) w) = Inr ts
            \<and> torch_stack ts = Inr px"
    if "pixel_batch self fs ims w = (Inr px, w2)"
    using that by (auto simp: pixel_batch_def split: prod.splits sum.splits)
  show "fst (call self fs (Some ims) (Some t) cl rt kw w)
            = Inr (enc(''pixel_values'' \<mapsto> PixelValues px'))"
    if "tokenize self t cl rt kw w = (Inr enc, w1) \<and> pixel_batch self fs ims w1 = (Inr px', w3)"
    using that by (simp add: call_both)
qed

text \<open>
  The three cases at concrete inputs: text only and both with the processor \<open>SELF0\<close>;
  images only with the processor that has no tokenizer, and with a keyword argument
  that the tokenizer call would reject.
\<close>

theorem C1_witness:
  "tokenize SELF0 ''a clip'' 77 None Map.empty W0
     = (Inr [''input_ids'' \<mapsto> TokenIds [[1, 2]]], record_event Tokenizer_called W0)
   \<and> fst (call SELF0 FS0 None (Some ''a clip'') 77 None Map.empty W0)
       = Inr [''input_ids'' \<mapsto> TokenIds [[1, 2]]]
   \<and> \<not> isl (fst (pixel_batch SELF_NONE FS0 (Inl ''clip.mp4'') W0))
   \<and> fst (call SELF_NONE FS0 (Some (Inl ''clip.mp4'')) None 77 None [''max_length'' \<mapsto> PInt 5] W0)
       = Inr [''pixel_values'' \<mapsto>
               PixelValues (projr (fst (pixel_batch SELF_NONE FS0 (Inl ''clip.mp4'') W0)))]
   \<and> \<not> isl (fst (pixel_batch SELF0 FS0 (Inl ''clip.mp4'') (record_event Tokenizer_called W0)))
   \<and> fst (call SELF0 FS0 (Some (Inl ''clip.mp4'')) (Some ''a clip'') 77 None Map.empty W0)
       = Inr [''input_ids'' \<mapsto> TokenIds [[1, 2]], ''pixel_values'' \<mapsto>
               PixelValues (projr (fst (pixel_batch SELF0 FS0 (Inl ''clip.mp4'')
                 (record_event Tokenizer_called W0))))]"
proof -
  let ?enc = "[''input_ids'' \<mapsto> TokenIds [[1, 2]]]"
  let ?kw = "[''max_length'' \<mapsto> PInt 5]"
  let ?w1 = "record_event Tokenizer_called W0"
  let ?p = "pixel_batch SELF_NONE FS0 (Inl ''clip.mp4'') W0"
  let ?p' = "pixel_batch SELF0 FS0 (Inl ''clip.mp4'') ?w1"
  have a: "tokenize SELF0 ''a clip'' 77 None Map.empty W0 = (Inr ?enc, ?w1)"
    by (simp add: tokenize_def SELF0_def TOK0_def)
  have c: "?p = (Inr (projr (fst ?p)), snd ?p)"
    using pixel_batch_SELF0(2) by (cases ?p, cases "fst ?p") simp_all
  have d: "?p' = (Inr (projr (fst ?p')), snd ?p')"
    using pixel_batch_SELF0(1) by (cases ?p', cases "fst ?p'") simp_all
  note th = C1_call_result [of SELF0 FS0 "''a clip''" 77 None Map.empty W0 ?enc ?w1
      "Inl ''clip.mp4''" "projr (fst ?p')" "snd ?p'" "projr (fst ?p')" "snd ?p'"]
  note th' = C1_call_result [of SELF_NONE FS0 "''a clip''" 77 None ?kw W0 ?enc ?w1
      "Inl ''clip.mp4''" "projr (fst ?p)" "snd ?p" "projr (fst ?p)" "snd ?p"]
  have s: "fst (call SELF0 FS0 None (Some ''a clip'') 77 None Map.empty W0) = Inr ?enc"
    using th a by blast
  have u: "fst (call SELF0 FS0 (Some (Inl ''clip.mp4'')) (Some ''a clip'') 77 None Map.empty W0)
            = Inr (?enc(''pixel_values'' \<mapsto> PixelValues (projr (fst ?p'))))"
    using th a d by blast
  obtain res where res: "fst (call SELF_NONE FS0 (Some (Inl ''clip.mp4'')) None 77 None ?kw W0) = Inr res"
    "dom res = {''pixel_values''}" "res ''pixel_values'' = Some (PixelValues (projr (fst ?p)))"
    using th' c by blast
  have "res = [''pixel_values'' \<mapsto> PixelValues (projr (fst ?p))]"
  proof (rule ext)
    fix k show "res k = [''pixel_values'' \<mapsto> PixelValues (projr (fst ?p))] k"
      using res(2,3) by (cases "k = ''pixel_values''") (auto simp: domIff)
  qed
  then have v: "fst (call SELF_NONE FS0 (Some (Inl ''clip.mp4'')) None 77 None ?kw W0)
      = Inr [''pixel_values'' \<mapsto> PixelValues (projr (fst ?p))]"
    using res(1) by (simp only:)
  show ?thesis by (intro conjI a s pixel_batch_SELF0 v u)
qed

text \<open>
  Claim C9, as stated, fails in one direction: a \<^verbatim>\<open>ValueError\<close> also comes out of the
  call when text or images are supplied and a collaborator raises one. A processor
  configured with \<^verbatim>\<open>num_frames = -1\<close>, called with a video, raises the \<^verbatim>\<open>ValueError\<close> of
  \<^verbatim>\<open>np.linspace\<close>, after the image processor has been invoked and the video opened; so
  does a processor configured with \<^verbatim>\<open>num_frames = 2 ** 62\<close>; and a \<^verbatim>\<open>ValueError\<close> raised
  by the tokenizer on the text propagates.
\<close>

theorem C9_counterexample:
  "LanguageBindVideoProcessor_init CFG_NEG TOK0 = Inr SELF_NEG
   \<and> fst (call SELF_NEG FS0 (Some (Inl ''clip.mp4'')) None 77 None Map.empty W0)
       = Inl (ValueError ''Number of samples, -1, must be non-negative.'')
   \<and> events (snd (call SELF_NEG FS0 (Some (Inl ''clip.mp4'')) None 77 None Map.empty W0))
       = [Video_opened ''clip.mp4'', Image_processor_called ''clip.mp4'']
   \<and> LanguageBindVideoProcessor_init CFG_BIG TOK0 = Inr SELF_BIG
   \<and> is_ValueError (fst (call SELF_BIG FS0 (Some (Inl ''clip.mp4'')) None 77 None Map.empty W0))
   \<and> is_ValueError (fst (call SELF_RAISING FS0 None (Some ''a clip'') 77 None Map.empty W0))"
proof (intro conjI)
  show "LanguageBindVideoProcessor_init CFG_NEG TOK0 = Inr SELF_NEG"
    by (simp add: LanguageBindVideoProcessor_init_def get_video_transform_def SELF_NEG_def
        SELF0_def CFG_NEG_def)
  show "LanguageBindVideoProcessor_init CFG_BIG TOK0 = Inr SELF_BIG"
    by (simp add: LanguageBindVideoProcessor_init_def get_video_transform_def SELF_BIG_def
        SELF0_def CFG_BIG_def)
  let ?r = "fst (call SELF_NEG FS0 (Some (Inl ''clip.mp4'')) None 77 None Map.empty W0)"
  have "isl ?r" by code_simp
  moreover have "projl ?r = ValueError ''Number of samples, -1, must be non-negative.''"
    by code_simp
  ultimately show "?r = Inl (ValueError ''Number of samples, -1, must be non-negative.'')"
    by (cases ?r) simp_all
  show "events (snd (call SELF_NEG FS0 (Some (Inl ''clip.mp4'')) None 77 None Map.empty W0))
       = [Video_opened ''clip.mp4'', Image_processor_called ''clip.mp4'']"
    by code_simp
  show "is_ValueError (fst (call SELF_BIG FS0 (Some (Inl ''clip.mp4'')) None 77 None Map.empty W0))"
    by code_simp
  show "is_ValueError (fst (call SELF_RAISING FS0 None (Some ''a clip'') 77 None Map.empty W0))"
    by code_simp
qed

text \<open>
  Claim C9, amended. With neither text nor images the call raises the \<^verbatim>\<open>ValueError\<close>
  of line 116 and leaves the world as it was: neither the tokenizer nor the image
  processor has been invoked. A \<^verbatim>\<open>ValueError\<close> raised before any invocation occurs if
  and only if both are \<^verbatim>\<open>None\<close>. And for a processor built by \<^verbatim>\<open>__init__\<close> with
  \<open>0 \<le> num_frames < 2\<^sup>6\<^sup>0\<close> and a tokenizer that raises no \<^verbatim>\<open>ValueError\<close> of its own,
  the call raises a \<^verbatim>\<open>ValueError\<close> if and only if both are \<^verbatim>\<open>None\<close>.
\<close>

theorem C9_value_error_guard:
  "call self fs None None cl rt kw w =
      (Inl (ValueError ''You have to specify either text or images. Both cannot be none.''), w)
   \<and> ((is_ValueError (fst (call self fs images text_in cl rt kw w))
        \<and> events (snd (call self fs images text_in cl rt kw w)) = events w)
       = (text_in = None \<and> images = None))
   \<and> (LanguageBindVideoProcessor_init cfg tok = Inr self
        \<and> 0 \<le> num_frames (vision_config cfg) \<and> num_frames (vision_config cfg) < 2 ^ 60
        \<and> (\<forall>a. \<not> is_ValueError (encode tok a))
       \<longrightarrow> is_ValueError (fst (call self fs images text_in cl rt kw w))
            = (text_in = None \<and> images = None))"
proof (intro conjI impI)
  show g: "call self fs None None cl rt kw w =
      (Inl (ValueError ''You have to specify either text or images. Both cannot be none.''), w)"
    by (simp add: call_def)
  show "(is_ValueError (fst (call self fs images text_in cl rt kw w))
        \<and> events (snd (call self fs images text_in cl rt kw w)) = events w)
       = (text_in = None \<and> images = None)"
  proof (cases "text_in = None \<and> images = None")
    case True
    then show ?thesis by (simp add: g)
  next
    case False
    then have "text_in \<noteq> None \<or> images \<noteq> None" by simp
    then show ?thesis using call_silent_not_ValueError[of text_in images self fs cl rt kw w] False
      by blast
  qed
  assume a: "LanguageBindVideoProcessor_init cfg tok = Inr self
        \<and> 0 \<le> num_frames (vision_config cfg) \<and> num_frames (vision_config cfg) < 2 ^ 60
        \<and> (\<forall>a. \<not> is_ValueError (encode tok a))"
  show "is_ValueError (fst (call self fs images text_in cl rt kw w))
            = (text_in = None \<and> images = None)"
  proof (cases "text_in = None \<and> images = None")
    case True
    then show ?thesis by (simp add: g)
  next
    case False
    then have "text_in \<noteq> None \<or> images \<noteq> None" by simp
    then show ?thesis
      using call_not_ValueError[of cfg tok self text_in images fs cl rt kw w] a False by blast
  qed
qed

theorem C9_witness:
  "LanguageBindVideoProcessor_init CFG0 TOK0 = Inr SELF0
   \<and> 0 \<le> num_frames (vision_config CFG0) \<and> num_frames (vision_config CFG0) < 2 ^ 60
   \<and> (\<forall>a. \<not> is_ValueError (encode TOK0 a))
   \<and> is_ValueError (fst (call SELF0 FS0 None None 77 None Map.empty W0))
   \<and> \<not> is_ValueError (fst (call SELF0 FS0 (Some (Inl ''clip.mp4'')) None 77 None Map.empty W0))
   \<and> \<not> is_ValueError (fst (call SELF0 FS0 None (Some ''a clip'') 77 None Map.empty W0))"
proof -
  have i: "LanguageBindVideoProcessor_init CFG0 TOK0 = Inr SELF0"
    by (simp add: LanguageBindVideoProcessor_init_def get_video_transform_def SELF0_def CFG0_def)
  have n: "0 \<le> num_frames (vision_config CFG0)" "num_frames (vision_config CFG0) < 2 ^ 60"
    by (simp_all add: CFG0_def)
  have t: "\<forall>a. \<not> is_ValueError (encode TOK0 a)" by (simp add: TOK0_def)
  show ?thesis
    using C9_value_error_guard [of SELF0 FS0 77 None Map.empty W0 None None CFG0 TOK0]
      C9_value_error_guard [of SELF0 FS0 77 None Map.empty W0 "Some (Inl ''clip.mp4'')" None CFG0 TOK0]
      C9_value_error_guard [of SELF0 FS0 77 None Map.empty W0 None "Some ''a clip''" CFG0 TOK0]
      i n t
    by simp
qed

end
